theory Spec2Isabelle
  imports Complex_Main "HOL-Library.Word"
begin

unbundle bit_operations_syntax

section \<open>JavaScript values used by the lip-sync code\<close>

text \<open>
  Integers read from a buffer, offsets and counters are \<open>int\<close> or \<open>nat\<close>.  Non-integral
  JavaScript numbers (seconds, sums of squares, amplitudes) are modelled as \<open>real\<close>, that is,
  double arithmetic is taken to be exact.  The one narrowing conversion of the code, the store
  of a number into a \<open>Float32Array\<close>, is modelled by \<open>fround\<close>.  A read past the end of a
  \<open>Float32Array\<close> yields \<open>undefined\<close>, which arithmetic turns into \<open>NaN\<close>; the type
  \<open>number\<close> adds that value to the reals where the code can produce it.
\<close>

datatype js_error = RangeError | TypeError

datatype number = NaN | Num real

fun num_add :: "number \<Rightarrow> number \<Rightarrow> number" where
  "num_add (Num a) (Num b) = Num (a + b)"
| "num_add _ _ = NaN"

fun num_mul :: "number \<Rightarrow> number \<Rightarrow> number" where
  "num_mul (Num a) (Num b) = Num (a * b)"
| "num_mul _ _ = NaN"

text \<open>\<open>Math.sqrt(sum / count)\<close> for a sum of squares (never negative) and a positive count.\<close>

fun sqrt_div :: "number \<Rightarrow> nat \<Rightarrow> number" where
  "sqrt_div (Num a) count = Num (sqrt (a / real count))"
| "sqrt_div NaN count = NaN"

definition and_then :: "js_error + 'a \<Rightarrow> ('a \<Rightarrow> js_error + 'b) \<Rightarrow> js_error + 'b" where
  "and_then m f = (case m of Inl e \<Rightarrow> Inl e | Inr x \<Rightarrow> f x)"

subsection \<open>Float32Array\<close>

definition round_half_even :: "real \<Rightarrow> int" where
  "round_half_even x =
     (let f = \<lfloor>x\<rfloor>; r = x - of_int f
      in if r < 1 / 2 then f else if 1 / 2 < r then f + 1 else if even f then f else f + 1)"

text \<open>
  The number of binary places a float32 keeps for \<open>x\<close>: the least \<open>n\<close> with
  \<open>2 ^ 23 \<le> \<bar>x\<bar> * 2 ^ n\<close> (a 24-bit significand), at most 149 (the subnormal spacing).
\<close>

function f32_places :: "real \<Rightarrow> nat \<Rightarrow> nat" where
  "f32_places x n = (if 149 \<le> n \<or> 2 ^ 23 \<le> \<bar>x\<bar> * 2 ^ n then n else f32_places x (Suc n))"
  by pat_completeness auto
termination
  by (relation "measure (\<lambda>(x, n). 149 - n)") auto

declare f32_places.simps [simp del]

text \<open>
  The value a \<open>Float32Array\<close> element holds after a store of \<open>x\<close>: the nearest float32, ties
  to even.  The definition covers \<open>\<bar>x\<bar> < 2 ^ 24\<close>; the code stores values of \<open>[-1, 1]\<close> only.
\<close>

definition fround :: "real \<Rightarrow> real" where
  "fround x = (let n = f32_places x 0 in real_of_int (round_half_even (x * 2 ^ n)) / 2 ^ n)"

text \<open>Reading element \<open>i\<close> of a \<open>Float32Array\<close> for use in arithmetic.\<close>

definition f32_get :: "real list \<Rightarrow> nat \<Rightarrow> number" where
  "f32_get data i = (if i < length data then Num (data ! i) else NaN)"

subsection \<open>DataView\<close>

type_synonym byte = "8 word"
type_synonym DataView = "byte list"

definition byteLength :: "DataView \<Rightarrow> int" where
  "byteLength view = int (length view)"

definition in_view :: "DataView \<Rightarrow> int \<Rightarrow> int \<Rightarrow> bool" where
  "in_view view off n = (0 \<le> off \<and> off + n \<le> byteLength view)"

definition byte_at :: "DataView \<Rightarrow> int \<Rightarrow> int" where
  "byte_at view off = uint (view ! nat off)"

definition getUint8 :: "DataView \<Rightarrow> int \<Rightarrow> js_error + int" where
  "getUint8 view off = (if in_view view off 1 then Inr (byte_at view off) else Inl RangeError)"

text \<open>The multi-byte getters are the little-endian ones (second argument \<open>true\<close>).\<close>

definition getUint16 :: "DataView \<Rightarrow> int \<Rightarrow> js_error + int" where
  "getUint16 view off =
     (if in_view view off 2 then Inr (byte_at view off + 256 * byte_at view (off + 1))
      else Inl RangeError)"

definition getInt16 :: "DataView \<Rightarrow> int \<Rightarrow> js_error + int" where
  "getInt16 view off =
     (if in_view view off 2
      then Inr (let u = byte_at view off + 256 * byte_at view (off + 1)
                in if 32768 \<le> u then u - 65536 else u)
      else Inl RangeError)"

definition getUint32 :: "DataView \<Rightarrow> int \<Rightarrow> js_error + int" where
  "getUint32 view off =
     (if in_view view off 4
      then Inr (byte_at view off + 256 * byte_at view (off + 1) + 65536 * byte_at view (off + 2)
                + 16777216 * byte_at view (off + 3))
      else Inl RangeError)"

definition getInt32 :: "DataView \<Rightarrow> int \<Rightarrow> js_error + int" where
  "getInt32 view off =
     (if in_view view off 4
      then Inr (let u = byte_at view off + 256 * byte_at view (off + 1)
                        + 65536 * byte_at view (off + 2) + 16777216 * byte_at view (off + 3)
                in if 2147483648 \<le> u then u - 4294967296 else u)
      else Inl RangeError)"

section \<open>The standalone handler: \<open>parseWav\<close>\<close>

record ParsedWav =
  sampleRate :: int
  channels :: int
  pcm :: "real list list"

definition readFourCC :: "DataView \<Rightarrow> int \<Rightarrow> js_error + string" where
  "readFourCC view offset =
     and_then (getUint8 view offset) (\<lambda>c0.
     and_then (getUint8 view (offset + 1)) (\<lambda>c1.
     and_then (getUint8 view (offset + 2)) (\<lambda>c2.
     and_then (getUint8 view (offset + 3)) (\<lambda>c3.
       Inr [char_of c0, char_of c1, char_of c2, char_of c3]))))"

text \<open>
  The chunk walk \<open>while (offset + 8 <= view.byteLength)\<close>; the tuple is
  \<open>(fmtOffset, fmtSize, dataOffset, dataSize)\<close>.
\<close>

function chunk_walk :: "DataView \<Rightarrow> int \<Rightarrow> int \<times> int \<times> int \<times> int
    \<Rightarrow> js_error + (int \<times> int \<times> int \<times> int)" where
  "chunk_walk view offset (fmtOffset, fmtSize, dataOffset, dataSize) =
     (if offset + 8 \<le> byteLength view then
        (case readFourCC view offset of
           Inl e \<Rightarrow> Inl e
         | Inr ident \<Rightarrow>
            (case getUint32 view (offset + 4) of
               Inl e \<Rightarrow> Inl e
             | Inr sz \<Rightarrow>
                (let payload = offset + 8
                 in chunk_walk view (payload + sz + sz mod 2)
                      (if ident = ''fmt '' then (payload, sz, dataOffset, dataSize)
                       else if ident = ''data'' then (fmtOffset, fmtSize, payload, sz)
                       else (fmtOffset, fmtSize, dataOffset, dataSize)))))
      else Inr (fmtOffset, fmtSize, dataOffset, dataSize))"
  by pat_completeness auto
termination
proof (relation "measure (\<lambda>(view, offset, st). nat (byteLength view - offset))")
  show "wf (measure (\<lambda>(view, offset, st). nat (byteLength view - offset)))"
    by simp
next
  fix view :: DataView and offset fmtOffset fmtSize dataOffset dataSize :: int
    and ident :: string and sz payload :: int and st :: "int \<times> int \<times> int \<times> int"
  assume le: "offset + 8 \<le> byteLength view"
    and rd: "getUint32 view (offset + 4) = Inr sz"
    and pl: "payload = offset + 8"
  from rd have "0 \<le> sz"
    by (auto simp: getUint32_def byte_at_def split: if_splits)
  then have "0 \<le> sz + sz mod 2"
    by simp
  with le pl
  show "((view, payload + sz + sz mod 2,
          if ident = ''fmt '' then (payload, sz, dataOffset, dataSize)
          else if ident = ''data'' then (fmtOffset, fmtSize, payload, sz)
          else (fmtOffset, fmtSize, dataOffset, dataSize)),
         (view, offset, fmtOffset, fmtSize, dataOffset, dataSize))
        \<in> measure (\<lambda>(view, offset, st). nat (byteLength view - offset))"
    by simp
qed

declare chunk_walk.simps [simp del]

text \<open>One sample at \<open>p\<close>: the normalised amplitude and the advanced read position.\<close>

definition read_sample :: "DataView \<Rightarrow> int \<Rightarrow> int \<Rightarrow> js_error + (real \<times> int)" where
  "read_sample view bitsPerSample p =
     (if bitsPerSample = 8 then
        and_then (getUint8 view p) (\<lambda>b. Inr ((real_of_int b - 128) / 128, p + 1))
      else if bitsPerSample = 16 then
        and_then (getInt16 view p) (\<lambda>v. Inr (real_of_int v / 32768, p + 2))
      else if bitsPerSample = 24 then
        and_then (getUint8 view p) (\<lambda>b0.
        and_then (getUint8 view (p + 1)) (\<lambda>b1.
        and_then (getUint8 view (p + 2)) (\<lambda>b2.
          let v = (word_of_int b0 OR push_bit 8 (word_of_int b1)
                   OR push_bit 16 (word_of_int b2) :: 32 word);
              v = (if v AND 0x800000 \<noteq> 0 then v OR 0xff000000 else v)
          in Inr (real_of_int (sint v) / 8388608, p + 3))))
      else
        and_then (getInt32 view p) (\<lambda>v. Inr (real_of_int v / 2147483648, p + 4)))"

text \<open>The store \<open>pcm[ch][i] = Math.max(-1, Math.min(1, sample))\<close>.\<close>

definition store_sample :: "real list list \<Rightarrow> nat \<Rightarrow> nat \<Rightarrow> real \<Rightarrow> real list list" where
  "store_sample out ch i sample = out[ch := (out ! ch)[i := fround (max (- 1) (min 1 sample))]]"

text \<open>The inner loop \<open>for (let ch = 0; ch < channels; ch++)\<close> of frame \<open>i\<close>.\<close>

function channel_loop :: "DataView \<Rightarrow> int \<Rightarrow> nat \<Rightarrow> nat \<Rightarrow> nat \<Rightarrow> int \<Rightarrow> real list list
    \<Rightarrow> js_error + (int \<times> real list list)" where
  "channel_loop view bitsPerSample nch i ch p out =
     (if ch < nch then
        (case read_sample view bitsPerSample p of
           Inl e \<Rightarrow> Inl e
         | Inr (sample, p') \<Rightarrow>
             channel_loop view bitsPerSample nch i (ch + 1) p' (store_sample out ch i sample))
      else Inr (p, out))"
  by pat_completeness auto
termination
  by (relation "measure (\<lambda>(view, bits, nch, i, ch, p, out). nch - ch)") auto

declare channel_loop.simps [simp del]

text \<open>The outer loop \<open>for (let i = 0; i < frames; i++)\<close>.\<close>

function frame_loop :: "DataView \<Rightarrow> int \<Rightarrow> nat \<Rightarrow> nat \<Rightarrow> nat \<Rightarrow> int \<Rightarrow> real list list
    \<Rightarrow> js_error + real list list" where
  "frame_loop view bitsPerSample nch frames i p out =
     (if i < frames then
        (case channel_loop view bitsPerSample nch i 0 p out of
           Inl e \<Rightarrow> Inl e
         | Inr (p', out') \<Rightarrow> frame_loop view bitsPerSample nch frames (i + 1) p' out')
      else Inr out)"
  by pat_completeness auto
termination
  by (relation "measure (\<lambda>(view, bits, nch, frames, i, p, out). frames - i)") auto

declare frame_loop.simps [simp del]

text \<open>
  \<open>parseWav\<close>: \<open>Inr None\<close> is the result \<open>null\<close>, \<open>Inl RangeError\<close> an exception thrown by a
  \<open>DataView\<close> getter.  \<open>parse_chunks\<close> is the part of the function after the chunk walk.
\<close>

definition parse_chunks :: "DataView \<Rightarrow> int \<times> int \<times> int \<times> int \<Rightarrow> js_error + ParsedWav option" where
  "parse_chunks view = (\<lambda>(fmtOffset, fmtSize, dataOffset, dataSize).
      if fmtOffset < 0 \<or> dataOffset < 0 then Inr None else
      if byteLength view < fmtOffset + min fmtSize 16 then Inr None else
      and_then (getUint16 view (fmtOffset + 0)) (\<lambda>audioFormat.
      and_then (getUint16 view (fmtOffset + 2)) (\<lambda>channels.
      and_then (getUint32 view (fmtOffset + 4)) (\<lambda>sampleRate.
      and_then (getUint16 view (fmtOffset + 14)) (\<lambda>bitsPerSample.
      if audioFormat \<noteq> 1 then Inr None else
      if channels = 0 \<or> sampleRate = 0 then Inr None else
      if bitsPerSample \<notin> {8, 16, 24, 32} then Inr None else
      (let bytesPerSample = bitsPerSample div 8;
           frameBytes = channels * bytesPerSample;
           available = min dataSize (byteLength view - dataOffset);
           frames = nat \<lfloor>real_of_int available / real_of_int frameBytes\<rfloor>;
           out = replicate (nat channels) (replicate frames 0)
       in and_then (frame_loop view bitsPerSample (nat channels) frames 0 dataOffset out) (\<lambda>out.
          Inr (Some \<lparr>sampleRate = sampleRate, channels = channels, pcm = out\<rparr>))))))))"

definition parseWav :: "byte list \<Rightarrow> js_error + ParsedWav option" where
  "parseWav buffer =
     (let view = buffer in
      if byteLength view < 12 then Inr None else
      and_then (readFourCC view 0) (\<lambda>riff.
      if riff \<noteq> ''RIFF'' then Inr None else
      and_then (readFourCC view 8) (\<lambda>wave.
      if wave \<noteq> ''WAVE'' then Inr None else
      and_then (chunk_walk view 12 (- 1, 0, - 1, 0)) (parse_chunks view))))"

section \<open>The standalone handler: \<open>LAppWavFileHandler\<close>\<close>

record LAppWavFileHandler =
  parsed :: "ParsedWav option"
  sampleCursor :: nat
  timeSeconds :: real
  lastRms :: number
  inflight :: "nat option"

text \<open>The field initialisers; \<open>inflight\<close> holds the identity of a promise.\<close>

definition new_LAppWavFileHandler :: LAppWavFileHandler where
  "new_LAppWavFileHandler =
     \<lparr>parsed = None, sampleCursor = 0, timeSeconds = 0, lastRms = Num 0, inflight = None\<rparr>"

text \<open>
  The loop \<open>for (let i = this.sampleCursor; i < target; i++)\<close> over one channel; the pair is
  \<open>(sum, count)\<close>.
\<close>

function sample_loop :: "real list \<Rightarrow> nat \<Rightarrow> nat \<Rightarrow> number \<times> nat \<Rightarrow> number \<times> nat" where
  "sample_loop data i target (sm, count) =
     (if i < target then
        (let v = f32_get data i
         in sample_loop data (i + 1) target (num_add sm (num_mul v v), count + 1))
      else (sm, count))"
  by pat_completeness auto
termination
  by (relation "measure (\<lambda>(data, i, target, acc). target - i)") auto

declare sample_loop.simps [simp del]

text \<open>
  The loop over the channels, \<open>for (let ch = 0; ch < wav.channels; ch++)\<close>.  Where \<open>pcm[ch]\<close>
  is \<open>undefined\<close>, the first read \<open>data[i]\<close> throws.
\<close>

function pool_loop :: "int \<Rightarrow> real list list \<Rightarrow> nat \<Rightarrow> nat \<Rightarrow> nat \<Rightarrow> number \<times> nat
    \<Rightarrow> js_error + (number \<times> nat)" where
  "pool_loop nch arrs cursor target ch acc =
     (if int ch < nch then
        (if ch < length arrs then
           pool_loop nch arrs cursor target (ch + 1) (sample_loop (arrs ! ch) cursor target acc)
         else if cursor < target then Inl TypeError
         else pool_loop nch arrs cursor target (ch + 1) acc)
      else Inr acc)"
  by pat_completeness auto
termination
  by (relation "measure (\<lambda>(nch, arrs, cursor, target, ch, acc). nat nch - ch)") auto

declare pool_loop.simps [simp del]

text \<open>\<open>wav.pcm[0]?.length ?? 0\<close>: the length of the first channel, 0 without one.\<close>

definition frameCount :: "real list list \<Rightarrow> nat" where
  "frameCount arrs = (case arrs of [] \<Rightarrow> 0 | c0 # cs \<Rightarrow> length c0)"

text \<open>
  \<open>update\<close> returns its result (or the exception it throws) and the object as it leaves it.
\<close>

definition update :: "LAppWavFileHandler \<Rightarrow> real
    \<Rightarrow> (js_error + bool) \<times> LAppWavFileHandler" where
  "update this deltaTimeSeconds =
     (case parsed this of
        None \<Rightarrow> (Inr False, this\<lparr>lastRms := Num 0\<rparr>)
      | Some wav \<Rightarrow>
          (let frames = frameCount (pcm wav)
           in if frames = 0 then (Inr False, this\<lparr>lastRms := Num 0\<rparr>)
              else
                (let this1 = this\<lparr>timeSeconds := timeSeconds this + deltaTimeSeconds\<rparr>;
                     target = min (int frames)
                                \<lfloor>timeSeconds this1 * real_of_int (sampleRate wav)\<rfloor>
                 in if target \<le> int (sampleCursor this1)
                    then (Inr False, this1\<lparr>lastRms := Num 0\<rparr>)
                    else
                      (case pool_loop (channels wav) (pcm wav) (sampleCursor this1) (nat target)
                              0 (Num 0, 0) of
                         Inl e \<Rightarrow> (Inl e, this1)
                       | Inr (sm, count) \<Rightarrow>
                           (Inr True,
                            this1\<lparr>sampleCursor := nat target,
                                  lastRms := (if count \<noteq> 0 then sqrt_div sm count
                                              else Num 0)\<rparr>)))))"

definition getRms :: "LAppWavFileHandler \<Rightarrow> number" where
  "getRms this = lastRms this"

subsection \<open>\<open>start\<close> and the settlement of its promise chain\<close>

text \<open>
  What \<open>fetch(filePath).then((r) => r.arrayBuffer())\<close> settles with: a rejection, or the bytes.
\<close>

datatype fetched = Rejected | Body "byte list"

text \<open>
  A handler together with the promise chains that \<open>start\<close> has created and that have not
  settled yet.  JavaScript runs the callbacks of a chain on the one event loop, between calls
  of \<open>start\<close> and \<open>update\<close>, so a settlement is one step.
\<close>

record tracker =
  handler :: LAppWavFileHandler
  pending :: "(nat \<times> string) list"
  issued :: nat

definition start :: "tracker \<Rightarrow> string \<Rightarrow> tracker" where
  "start w filePath =
     (let promise = issued w
      in w\<lparr>handler := (handler w)\<lparr>sampleCursor := 0, timeSeconds := 0, lastRms := Num 0,
                                    parsed := None, inflight := Some promise\<rparr>,
            pending := pending w @ [(promise, filePath)],
            issued := issued w + 1\<rparr>)"

text \<open>The callbacks \<open>.then((buf) => ...)\<close>, \<open>.catch(() => ...)\<close> and \<open>.finally(() => ...)\<close>.\<close>

definition on_rejected :: "LAppWavFileHandler \<Rightarrow> LAppWavFileHandler" where
  "on_rejected this = this\<lparr>parsed := None\<rparr>"

definition on_fulfilled :: "LAppWavFileHandler \<Rightarrow> byte list \<Rightarrow> LAppWavFileHandler" where
  "on_fulfilled this buf =
     (case parseWav buf of Inr r \<Rightarrow> this\<lparr>parsed := r\<rparr> | Inl e \<Rightarrow> on_rejected this)"

definition on_finally :: "LAppWavFileHandler \<Rightarrow> LAppWavFileHandler" where
  "on_finally this = this\<lparr>inflight := None\<rparr>"

definition settle :: "tracker \<Rightarrow> nat \<Rightarrow> fetched \<Rightarrow> tracker" where
  "settle w promise res =
     (if promise \<in> fst ` set (pending w) then
        w\<lparr>handler := on_finally (case res of
                                     Rejected \<Rightarrow> on_rejected (handler w)
                                   | Body buf \<Rightarrow> on_fulfilled (handler w) buf),
          pending := filter (\<lambda>(q, path). q \<noteq> promise) (pending w)\<rparr>
      else w)"

datatype event = Start string | Settle nat fetched | Update real

fun step :: "tracker \<Rightarrow> event \<Rightarrow> tracker" where
  "step w (Start filePath) = start w filePath"
| "step w (Settle promise res) = settle w promise res"
| "step w (Update deltaTimeSeconds) = w\<lparr>handler := snd (update (handler w) deltaTimeSeconds)\<rparr>"

definition run :: "tracker \<Rightarrow> event list \<Rightarrow> tracker" where
  "run w es = foldl step w es"

text \<open>What a settlement of the chain stores into \<open>parsed\<close>.\<close>

definition decoded :: "fetched \<Rightarrow> ParsedWav option" where
  "decoded res =
     (case res of
        Rejected \<Rightarrow> None
      | Body buf \<Rightarrow> (case parseWav buf of Inr r \<Rightarrow> r | Inl e \<Rightarrow> None))"

subsection \<open>The module variable \<open>s_instance\<close>\<close>

text \<open>
  Objects live in a store and are named by their index; \<open>new\<close> appends to the store.
\<close>

record wav_module =
  s_instance :: "nat option"
  objects :: "LAppWavFileHandler list"

definition getInstance :: "wav_module \<Rightarrow> nat \<times> wav_module" where
  "getInstance m =
     (case s_instance m of
        None \<Rightarrow>
          (let r = length (objects m)
           in (r, m\<lparr>objects := objects m @ [new_LAppWavFileHandler], s_instance := Some r\<rparr>))
      | Some r \<Rightarrow> (r, m))"

definition releaseInstance :: "wav_module \<Rightarrow> wav_module" where
  "releaseInstance m = m\<lparr>s_instance := None\<rparr>"

text \<open>A method call on the object \<open>r\<close> that changes it by \<open>f\<close>.\<close>

definition invoke :: "wav_module \<Rightarrow> nat \<Rightarrow> (LAppWavFileHandler \<Rightarrow> LAppWavFileHandler)
    \<Rightarrow> wav_module" where
  "invoke m r f = m\<lparr>objects := (objects m)[r := f (objects m ! r)]\<rparr>"

text \<open>\<open>n\<close> calls of \<open>getInstance\<close> in a row: the references they return, and the module after.\<close>

fun getInstances :: "nat \<Rightarrow> wav_module \<Rightarrow> nat list \<times> wav_module" where
  "getInstances 0 m = ([], m)"
| "getInstances (Suc n) m =
     (let (r, m1) = getInstance m; (rs, m2) = getInstances n m1 in (r # rs, m2))"

section \<open>The analyser used by the model class: \<open>AudioAnalyser\<close>\<close>

text \<open>
  The private fields \<open>_pcmData\<close>, \<open>_sampleRate\<close>, \<open>_channelCount\<close>, \<open>_lastRms\<close>,
  \<open>_sampleOffset\<close> and \<open>_userTimeSeconds\<close> are written \<open>u_pcmData\<close> and so on, and the
  methods carry the prefix \<open>aa_\<close>.
\<close>

record AudioAnalyser =
  u_pcmData :: "real list list option"
  u_sampleRate :: int
  u_channelCount :: int
  u_lastRms :: number
  u_sampleOffset :: nat
  u_userTimeSeconds :: real

definition new_AudioAnalyser :: AudioAnalyser where
  "new_AudioAnalyser =
     \<lparr>u_pcmData = None, u_sampleRate = 44100, u_channelCount = 1, u_lastRms = Num 0,
      u_sampleOffset = 0, u_userTimeSeconds = 0\<rparr>"

text \<open>The big-endian getter \<open>getUint32(offset, false)\<close>.\<close>

definition getUint32BE :: "DataView \<Rightarrow> int \<Rightarrow> js_error + int" where
  "getUint32BE view off =
     (if in_view view off 4
      then Inr (16777216 * byte_at view off + 65536 * byte_at view (off + 1)
                + 256 * byte_at view (off + 2) + byte_at view (off + 3))
      else Inl RangeError)"

text \<open>
  \<open>samplesPerChannel = chunkSize / 2 / this._channelCount\<close> is a quotient of JavaScript
  numbers: with no channels it is \<open>Infinity\<close>, or \<open>NaN\<close> for an empty chunk.
\<close>

datatype quotient = Quot real | Infinity | NotANumber

definition samplesPerChannel_of :: "int \<Rightarrow> int \<Rightarrow> quotient" where
  "samplesPerChannel_of chunkSize channelCount =
     (if channelCount = 0 then (if chunkSize = 0 then NotANumber else Infinity)
      else Quot (real_of_int chunkSize / 2 / real_of_int channelCount))"

text \<open>The loop test \<open>i < samplesPerChannel\<close>.\<close>

fun below :: "nat \<Rightarrow> quotient \<Rightarrow> bool" where
  "below i (Quot q) = (real i < q)"
| "below i Infinity = True"
| "below i NotANumber = False"

text \<open>
  \<open>new Float32Array(samplesPerChannel)\<close> truncates its argument; it runs for at least one
  channel only, where the quotient is finite.  The allocation is taken to succeed.
\<close>

fun array_length :: "quotient \<Rightarrow> nat" where
  "array_length (Quot q) = nat \<lfloor>q\<rfloor>"
| "array_length _ = 0"

text \<open>
  The inner loop \<open>for (let c = 0; c < this._channelCount; c++)\<close> of the data chunk.  An
  exception leaves the arrays as far as they have been filled.
\<close>

function aa_channel_loop :: "DataView \<Rightarrow> nat \<Rightarrow> nat \<Rightarrow> nat \<Rightarrow> int \<Rightarrow> real list list
    \<Rightarrow> (js_error + int) \<times> real list list" where
  "aa_channel_loop data nch i c pcmOffset out =
     (if c < nch then
        (case getInt16 data pcmOffset of
           Inl e \<Rightarrow> (Inl e, out)
         | Inr sample \<Rightarrow>
             aa_channel_loop data nch i (c + 1) (pcmOffset + 2)
               (out[c := (out ! c)[i := fround (real_of_int sample / 32768)]]))
      else (Inr pcmOffset, out))"
  by pat_completeness auto
termination
  by (relation "measure (\<lambda>(data, nch, i, c, pcmOffset, out). nch - c)") auto

declare aa_channel_loop.simps [simp del]

text \<open>
  The outer loop \<open>for (let i = 0; i < samplesPerChannel; i++)\<close>.  It does not end when the
  bound is \<open>Infinity\<close>; \<open>None\<close> is the run that never returns.
\<close>

partial_function (option) aa_frame_loop :: "DataView \<Rightarrow> nat \<Rightarrow> quotient \<Rightarrow> nat \<Rightarrow> int
    \<Rightarrow> real list list \<Rightarrow> ((js_error + unit) \<times> real list list) option" where
  "aa_frame_loop data nch spc i pcmOffset out =
     (if below i spc then
        (case aa_channel_loop data nch i 0 pcmOffset out of
           (Inl e, out') \<Rightarrow> Some (Inl e, out')
         | (Inr pcmOffset', out') \<Rightarrow> aa_frame_loop data nch spc (i + 1) pcmOffset' out')
      else Some (Inr (), out))"

declare aa_frame_loop.simps [code]

text \<open>The branch of the \<open>data\<close> chunk, which ends \<open>parseWav\<close>.\<close>

definition aa_data_chunk :: "AudioAnalyser \<Rightarrow> DataView \<Rightarrow> int \<Rightarrow> int
    \<Rightarrow> ((js_error + bool) \<times> AudioAnalyser) option" where
  "aa_data_chunk this data offset chunkSize =
     (let samplesPerChannel = samplesPerChannel_of chunkSize (u_channelCount this);
          nch = nat (u_channelCount this);
          out = replicate nch (replicate (array_length samplesPerChannel) 0)
      in case aa_frame_loop data nch samplesPerChannel 0 offset out of
           None \<Rightarrow> None
         | Some (Inl e, out') \<Rightarrow> Some (Inl e, this\<lparr>u_pcmData := Some out'\<rparr>)
         | Some (Inr u, out') \<Rightarrow>
             Some (Inr True, this\<lparr>u_pcmData := Some out', u_sampleOffset := 0,
                                   u_userTimeSeconds := 0, u_lastRms := Num 0\<rparr>))"

text \<open>
  The branch of the \<open>fmt\<close> chunk: \<open>Inr False\<close> is \<open>return false\<close>, \<open>Inr True\<close> falls through
  to \<open>offset += chunkSize\<close>.
\<close>

definition aa_fmt_chunk :: "AudioAnalyser \<Rightarrow> DataView \<Rightarrow> int
    \<Rightarrow> (js_error + bool) \<times> AudioAnalyser" where
  "aa_fmt_chunk this data offset =
     (case getUint16 data offset of
        Inl e \<Rightarrow> (Inl e, this)
      | Inr audioFormat \<Rightarrow>
          if audioFormat \<noteq> 1 then (Inr False, this)
          else
            (case getUint16 data (offset + 2) of
               Inl e \<Rightarrow> (Inl e, this)
             | Inr channelCount \<Rightarrow>
                 (let this1 = this\<lparr>u_channelCount := channelCount\<rparr>
                  in case getUint32 data (offset + 4) of
                       Inl e \<Rightarrow> (Inl e, this1)
                     | Inr rate \<Rightarrow>
                         (let this2 = this1\<lparr>u_sampleRate := rate\<rparr>
                          in case getUint16 data (offset + 14) of
                               Inl e \<Rightarrow> (Inl e, this2)
                             | Inr bitsPerSample \<Rightarrow>
                                 if bitsPerSample \<noteq> 16 then (Inr False, this2)
                                 else (Inr True, this2)))))"

text \<open>The chunk loop \<open>while (offset < data.byteLength)\<close>.\<close>

function aa_chunk_loop :: "DataView \<Rightarrow> int \<Rightarrow> AudioAnalyser
    \<Rightarrow> ((js_error + bool) \<times> AudioAnalyser) option" where
  "aa_chunk_loop data offset this =
     (if offset < byteLength data then
        (case getUint32BE data offset of
           Inl e \<Rightarrow> Some (Inl e, this)
         | Inr chunkId \<Rightarrow>
            (case getUint32 data (offset + 4) of
               Inl e \<Rightarrow> Some (Inl e, this)
             | Inr chunkSize \<Rightarrow>
                 if chunkId = 0x666d7420 then
                   (case aa_fmt_chunk this data (offset + 8) of
                      (Inr True, this') \<Rightarrow> aa_chunk_loop data (offset + 8 + chunkSize) this'
                    | (r, this') \<Rightarrow> Some (r, this'))
                 else if chunkId = 0x64617461 then
                   aa_data_chunk this data (offset + 8) chunkSize
                 else aa_chunk_loop data (offset + 8 + chunkSize) this))
      else Some (Inr False, this))"
  by pat_completeness auto
termination
proof (relation "measure (\<lambda>(data, offset, this). nat (byteLength data - offset))")
  show "wf (measure (\<lambda>(data, offset, this). nat (byteLength data - offset)))"
    by simp
next
  fix data :: DataView and offset chunkId chunkSize :: int and this this' :: AudioAnalyser
  assume "offset < byteLength data" and "getUint32 data (offset + 4) = Inr chunkSize"
  then have "0 \<le> chunkSize \<and> offset < byteLength data"
    by (auto simp: getUint32_def byte_at_def split: if_splits)
  then have m: "((data, offset + 8 + chunkSize, this'), (data, offset, this))
      \<in> measure (\<lambda>(data, offset, this). nat (byteLength data - offset))" for this'
    by simp
  show "((data, offset + 8 + chunkSize, this'), (data, offset, this))
      \<in> measure (\<lambda>(data, offset, this). nat (byteLength data - offset))"
    by (rule m)
  show "((data, offset + 8 + chunkSize, this), (data, offset, this))
      \<in> measure (\<lambda>(data, offset, this). nat (byteLength data - offset))"
    by (rule m)
qed

declare aa_chunk_loop.simps [simp del]

text \<open>\<open>parseWav\<close> of the analyser: its result or exception, and the object as it leaves it.\<close>

definition aa_parseWav :: "AudioAnalyser \<Rightarrow> byte list
    \<Rightarrow> ((js_error + bool) \<times> AudioAnalyser) option" where
  "aa_parseWav this buffer =
     (let data = buffer
      in case getUint32BE data 0 of
           Inl e \<Rightarrow> Some (Inl e, this)
         | Inr riff \<Rightarrow>
             if riff \<noteq> 0x52494646 then Some (Inr False, this)
             else
               (case getUint32BE data 8 of
                  Inl e \<Rightarrow> Some (Inl e, this)
                | Inr wave \<Rightarrow>
                    if wave \<noteq> 0x57415645 then Some (Inr False, this)
                    else aa_chunk_loop data 12 this))"

text \<open>
  \<open>load\<close> assigns no field before its first \<open>await\<close>.  \<open>aa_load\<close> is the rest of it, run when
  the fetch has settled: the \<open>try\<close> block turns a rejection and an exception of \<open>parseWav\<close>
  into the result \<open>false\<close>.
\<close>

definition aa_load :: "AudioAnalyser \<Rightarrow> fetched \<Rightarrow> (bool \<times> AudioAnalyser) option" where
  "aa_load this res =
     (case res of
        Rejected \<Rightarrow> Some (False, this)
      | Body buffer \<Rightarrow>
          (case aa_parseWav this buffer of
             None \<Rightarrow> None
           | Some (Inl e, this') \<Rightarrow> Some (False, this')
           | Some (Inr b, this') \<Rightarrow> Some (b, this')))"

definition aa_update :: "AudioAnalyser \<Rightarrow> real \<Rightarrow> (js_error + number) \<times> AudioAnalyser" where
  "aa_update this deltaTimeSeconds =
     (case u_pcmData this of
        None \<Rightarrow> (Inr (Num 0), this)
      | Some pcmData \<Rightarrow>
          (let this1 = this\<lparr>u_userTimeSeconds := u_userTimeSeconds this + deltaTimeSeconds\<rparr>;
               goalOffset = \<lfloor>u_userTimeSeconds this1 * real_of_int (u_sampleRate this1)\<rfloor>
           in case pcmData of
                [] \<Rightarrow> (Inl TypeError, this1)
              | c0 # cs \<Rightarrow>
                  (let maxOffset = int (length c0);
                       goalOffset = (if maxOffset < goalOffset then maxOffset else goalOffset)
                   in if goalOffset \<le> int (u_sampleOffset this1)
                      then (Inr (u_lastRms this1), this1)
                      else
                        (case pool_loop (u_channelCount this1) pcmData (u_sampleOffset this1)
                                (nat goalOffset) 0 (Num 0, 0) of
                           Inl e \<Rightarrow> (Inl e, this1)
                         | Inr (sumSquared, sampleCount) \<Rightarrow>
                             (let this2 = this1\<lparr>u_sampleOffset := nat goalOffset\<rparr>;
                                  this3 = this2\<lparr>u_lastRms :=
                                            (if 0 < sampleCount
                                             then sqrt_div sumSquared sampleCount
                                             else Num 0)\<rparr>
                              in (Inr (u_lastRms this3), this3))))))"

definition aa_getRms :: "AudioAnalyser \<Rightarrow> number" where
  "aa_getRms this = u_lastRms this"

section \<open>Well-formedness and the quantities of the specification\<close>

text \<open>
  Every channel has the length of the first one.  \<open>parseWav\<close> creates all channel arrays with
  one length, and nothing else creates them.
\<close>

definition rectangular :: "real list list \<Rightarrow> bool" where
  "rectangular arrs = (\<forall>c \<in> set arrs. length c = frameCount arrs)"

definition wf_wav :: "ParsedWav \<Rightarrow> bool" where
  "wf_wav wav = (channels wav = int (length (pcm wav)) \<and> rectangular (pcm wav))"






subsection \<open>The normalisation of the specification\<close>

text \<open>
  The little-endian unsigned and two's-complement integers of \<open>n\<close> bytes at byte \<open>p\<close>, and
  the specification's normalisation of the sample stored there: \<open>(byte - 128) / 128\<close> for
  8 bits, \<open>int16 / 32768\<close>, the sign-extended \<open>int24 / 8388608\<close> and \<open>int32 / 2147483648\<close>.
\<close>

fun le_uint :: "byte list \<Rightarrow> nat \<Rightarrow> nat \<Rightarrow> int" where
  "le_uint buf p 0 = 0"
| "le_uint buf p (Suc n) = uint (buf ! p) + 256 * le_uint buf (Suc p) n"

definition le_sint :: "byte list \<Rightarrow> nat \<Rightarrow> nat \<Rightarrow> int" where
  "le_sint buf p n =
     (let u = le_uint buf p n in if 2 ^ (8 * n - 1) \<le> u then u - 2 ^ (8 * n) else u)"

definition normalized :: "int \<Rightarrow> byte list \<Rightarrow> nat \<Rightarrow> real" where
  "normalized bits buf p =
     (if bits = 8 then (real_of_int (le_uint buf p 1) - 128) / 128
      else if bits = 16 then real_of_int (le_sint buf p 2) / 32768
      else if bits = 24 then real_of_int (le_sint buf p 3) / 8388608
      else real_of_int (le_sint buf p 4) / 2147483648)"

text \<open>
  The byte at which the sample of frame \<open>i\<close> and channel \<open>ch\<close> starts, in interleaved data
  at \<open>dataOffset\<close>.
\<close>

definition sample_position :: "int \<Rightarrow> int \<Rightarrow> int \<Rightarrow> nat \<Rightarrow> nat \<Rightarrow> nat" where
  "sample_position dataOffset nch bits i ch =
     nat dataOffset + (i * nat nch + ch) * nat (bits div 8)"

text \<open>
  The two invariants of the decoding loops: the output has \<open>nch\<close> arrays of \<open>frames\<close>
  elements; and every frame before \<open>i\<close>, and the channels before \<open>ch\<close> of frame \<open>i\<close>,
  hold the float32 of the clamped normalisation of their sample.
\<close>

definition shaped :: "real list list \<Rightarrow> nat \<Rightarrow> nat \<Rightarrow> bool" where
  "shaped out nch frames = (length out = nch \<and> (\<forall>c < nch. length (out ! c) = frames))"

definition stored :: "byte list \<Rightarrow> int \<Rightarrow> int \<Rightarrow> nat \<Rightarrow> nat \<Rightarrow> nat \<Rightarrow> real" where
  "stored view bits dataOffset nch j c =
     fround (max (- 1) (min 1
       (normalized bits view (sample_position dataOffset (int nch) bits j c))))"

definition filled :: "byte list \<Rightarrow> int \<Rightarrow> int \<Rightarrow> nat \<Rightarrow> nat \<Rightarrow> real list list \<Rightarrow> nat \<Rightarrow> nat
    \<Rightarrow> bool" where
  "filled view bits dataOffset nch frames out i ch =
     (\<forall>c j. c < nch \<longrightarrow> j < frames \<longrightarrow> (j < i \<or> (j = i \<and> c < ch)) \<longrightarrow>
        out ! c ! j = stored view bits dataOffset nch j c)"

text \<open>
  A well-formed file: the two tags, a \<open>fmt\<close> chunk and a \<open>data\<close> chunk found by the chunk
  walk, the sixteen bytes of the \<open>fmt\<close> chunk inside the buffer, the format code 1, a channel
  count and a sample rate that are not 0 and a supported number of bits per sample.
\<close>

definition wav_layout :: "byte list \<Rightarrow> int \<Rightarrow> int \<Rightarrow> int \<Rightarrow> int \<Rightarrow> int \<Rightarrow> int \<Rightarrow> bool" where
  "wav_layout buf fmtOffset dataOffset dataSize nch rate bits =
     (12 \<le> byteLength buf \<and> readFourCC buf 0 = Inr ''RIFF'' \<and> readFourCC buf 8 = Inr ''WAVE''
      \<and> (\<exists>fmtSize. chunk_walk buf 12 (- 1, 0, - 1, 0)
                       = Inr (fmtOffset, fmtSize, dataOffset, dataSize))
      \<and> 0 \<le> fmtOffset \<and> 0 \<le> dataOffset \<and> fmtOffset + 16 \<le> byteLength buf
      \<and> getUint16 buf fmtOffset = Inr 1
      \<and> getUint16 buf (fmtOffset + 2) = Inr nch \<and> nch \<noteq> 0
      \<and> getUint32 buf (fmtOffset + 4) = Inr rate \<and> rate \<noteq> 0
      \<and> getUint16 buf (fmtOffset + 14) = Inr bits \<and> bits \<in> {8, 16, 24, 32})"

text \<open>The frame count of the specification, from the bytes that are there.\<close>

definition frames_available :: "byte list \<Rightarrow> int \<Rightarrow> int \<Rightarrow> int \<Rightarrow> int \<Rightarrow> nat" where
  "frames_available buf dataOffset dataSize nch bits =
     nat (min dataSize (byteLength buf - dataOffset) div (nch * (bits div 8)))"

subsection \<open>Recordings used in the examples\<close>

text \<open>
  The twelve bytes \<open>RIFF\<close>, a size field and \<open>WAVE\<close>; a \<open>fmt\<close> chunk of sixteen bytes with
  the given format code, channel count, sample rate and bits per sample; a \<open>data\<close> chunk with
  the given declared size and bytes.
\<close>

definition riff_wave :: "byte list" where
  "riff_wave = [0x52, 0x49, 0x46, 0x46, 0, 0, 0, 0, 0x57, 0x41, 0x56, 0x45]"

definition fmt_chunk :: "byte \<Rightarrow> byte \<Rightarrow> byte \<Rightarrow> byte \<Rightarrow> byte list" where
  "fmt_chunk code nch rate bits =
     [0x66, 0x6d, 0x74, 0x20, 16, 0, 0, 0,
      code, 0, nch, 0, rate, 0, 0, 0, 0, 0, 0, 0, 0, 0, bits, 0]"

definition data_chunk :: "byte \<Rightarrow> byte list \<Rightarrow> byte list" where
  "data_chunk declared bytes = [0x64, 0x61, 0x74, 0x61, declared, 0, 0, 0] @ bytes"

text \<open>One channel, two samples a second, sixteen bits: the two samples \<open>-32768\<close>.\<close>

definition two_samples :: "byte list" where
  "two_samples = riff_wave @ fmt_chunk 1 1 2 16 @ data_chunk 4 [0, 0x80, 0, 0x80]"




definition example_cut_8 :: "byte list" where
  "example_cut_8 = riff_wave @ fmt_chunk 1 2 2 8 @ data_chunk 100 [0, 0x40, 0xff, 0x80, 7]"

definition example_cut_16 :: "byte list" where
  "example_cut_16 = riff_wave @ fmt_chunk 1 1 2 16 @ data_chunk 6 [0, 0x80, 0, 0x80]"

text \<open>
  Files of the rejection set: the format code 2; twelve bits per sample; the sample rate 0;
  no channels; no \<open>fmt\<close> chunk; no \<open>data\<close> chunk; and a \<open>fmt\<close> chunk of two bytes, with the
  format code 2, at the end of the buffer.
\<close>

definition example_code_2 :: "byte list" where
  "example_code_2 = riff_wave @ fmt_chunk 2 1 2 16 @ data_chunk 4 [0, 0x80, 0, 0x80]"

definition example_12_bits :: "byte list" where
  "example_12_bits = riff_wave @ fmt_chunk 1 1 2 12 @ data_chunk 4 [0, 0x80, 0, 0x80]"

definition example_no_rate :: "byte list" where
  "example_no_rate = riff_wave @ fmt_chunk 1 1 0 16 @ data_chunk 4 [0, 0x80, 0, 0x80]"

definition example_no_channels :: "byte list" where
  "example_no_channels = riff_wave @ fmt_chunk 1 0 2 16 @ data_chunk 4 [0, 0x80, 0, 0x80]"

definition example_no_fmt :: "byte list" where
  "example_no_fmt = riff_wave @ data_chunk 4 [0, 0x80, 0, 0x80]"

definition example_no_data :: "byte list" where
  "example_no_data = riff_wave @ fmt_chunk 1 1 2 16"

definition example_cut_fmt :: "byte list" where
  "example_cut_fmt = riff_wave @ data_chunk 0 [] @ [0x66, 0x6d, 0x74, 0x20, 2, 0, 0, 0, 2, 0]"

text \<open>The reference in \<open>s_instance\<close>, when there is one, names an object of the store.\<close>

definition wf_module :: "wav_module \<Rightarrow> bool" where
  "wf_module m = (case s_instance m of None \<Rightarrow> True | Some r \<Rightarrow> r < length (objects m))"

section \<open>The singleton\<close>

lemma getInstance_again:
  "getInstance m = (r, m1) \<Longrightarrow> getInstance m1 = (r, m1)"
  by (auto simp: getInstance_def Let_def split: option.splits)

lemma getInstances_same:
  "getInstance m1 = (r, m1) \<Longrightarrow> getInstances n m1 = (replicate n r, m1)"
  by (induction n) simp_all

text \<open>
  Claim C10.  \<open>getInstance\<close> creates a handler when \<open>s_instance\<close> is empty and otherwise
  returns the one \<open>s_instance\<close> holds; after a call, every further call returns that same
  reference and leaves the module as it is, so a change made to the handler through the
  reference of one call is the state seen through the reference of any other; after
  \<open>releaseInstance\<close> the next call creates a new, different object.
\<close>

theorem getInstance_shared:
  assumes "wf_module m" and "getInstance m = (r, m1)"
  shows "(s_instance m = None \<longrightarrow>
            r = length (objects m) \<and> objects m1 = objects m @ [new_LAppWavFileHandler])
       \<and> (s_instance m \<noteq> None \<longrightarrow> s_instance m = Some r \<and> m1 = m)
       \<and> s_instance m1 = Some r \<and> r < length (objects m1)
       \<and> getInstances n m1 = (replicate n r, m1)
       \<and> getInstance (invoke m1 r f) = (r, invoke m1 r f)
       \<and> objects (invoke m1 r f) ! r = f (objects m1 ! r)
       \<and> s_instance (releaseInstance m1) = None
       \<and> fst (getInstance (releaseInstance m1)) = length (objects m1)
       \<and> fst (getInstance (releaseInstance m1)) \<noteq> r"
proof -
  have a: "s_instance m = None \<longrightarrow>
            r = length (objects m) \<and> objects m1 = objects m @ [new_LAppWavFileHandler]"
    using assms(2) by (auto simp: getInstance_def Let_def split: option.splits)
  have b: "s_instance m \<noteq> None \<longrightarrow> s_instance m = Some r \<and> m1 = m"
    using assms(2) by (auto simp: getInstance_def Let_def split: option.splits)
  have c: "s_instance m1 = Some r"
    using assms(2) by (auto simp: getInstance_def Let_def split: option.splits)
  have d: "r < length (objects m1)"
    using assms by (auto simp: getInstance_def wf_module_def Let_def split: option.splits)
  have e: "getInstances n m1 = (replicate n r, m1)"
    using assms(2) by (intro getInstances_same getInstance_again)
  have f: "getInstance (invoke m1 r f) = (r, invoke m1 r f)"
    using c by (simp add: getInstance_def invoke_def)
  have g: "objects (invoke m1 r f) ! r = f (objects m1 ! r)"
    using d by (simp add: invoke_def)
  have h: "s_instance (releaseInstance m1) = None"
    by (simp add: releaseInstance_def)
  have i: "fst (getInstance (releaseInstance m1)) = length (objects m1)"
    by (simp add: getInstance_def releaseInstance_def Let_def)
  from a b c d e f g h i show ?thesis
    by simp
qed

theorem getInstance_shared_witness:
  "wf_module \<lparr>s_instance = None, objects = []\<rparr>
   \<and> getInstance \<lparr>s_instance = None, objects = []\<rparr>
       = (0, \<lparr>s_instance = Some 0, objects = [new_LAppWavFileHandler]\<rparr>)
   \<and> getInstances 3 \<lparr>s_instance = Some 0, objects = [new_LAppWavFileHandler]\<rparr>
       = ([0, 0, 0], \<lparr>s_instance = Some 0, objects = [new_LAppWavFileHandler]\<rparr>)
   \<and> fst (getInstance (releaseInstance
              \<lparr>s_instance = Some 0, objects = [new_LAppWavFileHandler]\<rparr>)) = 1"
proof -
  have w: "wf_module \<lparr>s_instance = None, objects = []\<rparr>"
    by (simp add: wf_module_def)
  have g: "getInstance \<lparr>s_instance = None, objects = []\<rparr>
       = (0, \<lparr>s_instance = Some 0, objects = [new_LAppWavFileHandler]\<rparr>)"
    by (simp add: getInstance_def)
  show ?thesis
    using w g getInstance_shared [OF w g, of 3 id]
    by (simp add: numeral_3_eq_3)
qed

section \<open>The envelope step\<close>





lemma rectangular_length:
  "rectangular arrs \<Longrightarrow> c \<in> set arrs \<Longrightarrow> length c = frameCount arrs"
  by (simp add: rectangular_def)



lemma update_silent:
  "parsed this = None \<Longrightarrow> update this dt = (Inr False, this\<lparr>lastRms := Num 0\<rparr>)"
  by (simp add: update_def)




subsection \<open>A run on a three-sample recording\<close>








section \<open>The cursor\<close>


lemma update_parsed: "parsed (snd (update this dt)) = parsed this"
  by (auto simp: update_def Let_def split: option.splits sum.splits prod.splits)











section \<open>The pooled root mean square\<close>




section \<open>Idle steps\<close>








section \<open>Settlements of the promise chains\<close>

lemma example_two_samples:
  "parseWav two_samples = Inr (Some \<lparr>sampleRate = 2, channels = 1, pcm = [[- 1, - 1]]\<rparr>)"
  by code_simp

lemma example_decoded_two_samples:
  "decoded (Body two_samples) = Some \<lparr>sampleRate = 2, channels = 1, pcm = [[- 1, - 1]]\<rparr>"
  by (simp add: decoded_def example_two_samples)

lemma decoded_Rejected: "decoded Rejected = None"
  by (simp add: decoded_def)

lemma settle_parsed:
  "promise \<in> fst ` set (pending w) \<Longrightarrow> parsed (handler (settle w promise res)) = decoded res"
  by (auto simp: settle_def decoded_def on_finally_def on_rejected_def on_fulfilled_def
      split: fetched.splits sum.splits)

lemma settle_pending:
  "pending (settle w promise res) = filter (\<lambda>(q, path). q \<noteq> promise) (pending w)"
proof (cases "promise \<in> fst ` set (pending w)")
  case True
  then show ?thesis by (simp add: settle_def)
next
  case False
  then have "filter (\<lambda>(q, path). q \<noteq> promise) (pending w) = pending w"
    by (auto simp: filter_id_conv image_iff)
  with False show ?thesis by (simp add: settle_def)
qed

lemma settle_issued: "issued (settle w promise res) = issued w"
  by (simp add: settle_def)

lemma settle_untouched:
  "sampleCursor (handler (settle w promise res)) = sampleCursor (handler w)
   \<and> timeSeconds (handler (settle w promise res)) = timeSeconds (handler w)
   \<and> lastRms (handler (settle w promise res)) = lastRms (handler w)"
  by (auto simp: settle_def on_finally_def on_rejected_def on_fulfilled_def
      split: fetched.splits sum.splits)

lemma run_append: "run w (es @ fs) = run (run w es) fs"
  by (simp add: run_def)

lemma run_Cons: "run w (e # es) = run (step w e) es"
  by (simp add: run_def)

lemma run_Nil: "run w [] = w"
  by (simp add: run_def)

lemma run_updates:
  "parsed (handler (run w (map Update dts))) = parsed (handler w)
   \<and> pending (run w (map Update dts)) = pending w
   \<and> issued (run w (map Update dts)) = issued w"
proof (induction dts arbitrary: w)
  case Nil
  show ?case by (simp add: run_Nil)
next
  case (Cons dt dts)
  show ?case
    using Cons.IH [of "step w (Update dt)"] by (simp add: run_Cons update_parsed)
qed

lemma run_updates_silent:
  "parsed (handler w) = None \<Longrightarrow> lastRms (handler w) = Num 0 \<Longrightarrow>
   getRms (handler (run w (map Update dts))) = Num 0"
proof (induction dts arbitrary: w)
  case Nil
  then show ?case by (simp add: run_Nil getRms_def)
next
  case (Cons dt dts)
  have "parsed (handler (step w (Update dt))) = None"
    and "lastRms (handler (step w (Update dt))) = Num 0"
    using Cons.prems by (simp_all add: update_silent)
  then show ?case
    using Cons.IH [of "step w (Update dt)"] by (simp add: run_Cons)
qed

lemma start_fields:
  "parsed (handler (start w p)) = None \<and> sampleCursor (handler (start w p)) = 0
   \<and> timeSeconds (handler (start w p)) = 0 \<and> lastRms (handler (start w p)) = Num 0
   \<and> inflight (handler (start w p)) = Some (issued w)
   \<and> pending (start w p) = pending w @ [(issued w, p)]
   \<and> issued (start w p) = Suc (issued w)"
  by (simp add: start_def Let_def)

text \<open>
  Claim C2, as the code has it.  No callback of a promise chain looks at which \<open>start\<close> it
  belongs to, so the settlement that runs last decides \<open>parsed\<close>: when the chain of the first
  \<open>start\<close> settles before the chain of the second, \<open>parsed\<close> holds the outcome of the second
  only; when it settles after, \<open>parsed\<close> holds the outcome of the first.  Calls of \<open>update\<close> in
  between change nothing of this.
\<close>

theorem last_settlement_wins:
  "parsed (handler (run w ([Start a, Start b] @ map Update us1 @ [Settle (issued w) ra]
       @ map Update us2 @ [Settle (Suc (issued w)) rb] @ map Update us3))) = decoded rb
   \<and> parsed (handler (run w ([Start a, Start b] @ map Update us1 @ [Settle (Suc (issued w)) rb]
       @ map Update us2 @ [Settle (issued w) ra] @ map Update us3))) = decoded ra"
proof -
  define w2 where "w2 = run (start (start w a) b) (map Update us1)"
  have p2: "pending w2 = pending w @ [(issued w, a), (Suc (issued w), b)]"
    by (simp add: w2_def run_updates start_fields)
  have r: "run w ([Start a, Start b] @ es) = run (start (start w a) b) es" for es
    by (simp add: run_Cons)
  have first: "parsed (handler (run w ([Start a, Start b] @ map Update us1
       @ [Settle (issued w) ra] @ map Update us2 @ [Settle (Suc (issued w)) rb]
       @ map Update us3))) = decoded rb"
  proof -
    define w3 where "w3 = run (settle w2 (issued w) ra) (map Update us2)"
    have "Suc (issued w) \<in> fst ` set (pending w3)"
      by (simp add: w3_def run_updates settle_pending p2)
    then have "parsed (handler (settle w3 (Suc (issued w)) rb)) = decoded rb"
      by (rule settle_parsed)
    then show ?thesis
      by (simp add: r run_append run_Cons run_Nil run_updates w2_def w3_def)
  qed
  have second: "parsed (handler (run w ([Start a, Start b] @ map Update us1
       @ [Settle (Suc (issued w)) rb] @ map Update us2 @ [Settle (issued w) ra]
       @ map Update us3))) = decoded ra"
  proof -
    define w3 where "w3 = run (settle w2 (Suc (issued w)) rb) (map Update us2)"
    have "issued w \<in> fst ` set (pending w3)"
      by (simp add: w3_def run_updates settle_pending p2)
    then have "parsed (handler (settle w3 (issued w) ra)) = decoded ra"
      by (rule settle_parsed)
    then show ?thesis
      by (simp add: r run_append run_Cons run_Nil run_updates w2_def w3_def)
  qed
  from first second show ?thesis by simp
qed

theorem last_settlement_wins_witness:
  "parsed (handler (run \<lparr>handler = new_LAppWavFileHandler, pending = [], issued = 0\<rparr>
      [Start ''a.wav'', Start ''b.wav'', Settle 0 Rejected, Update 1,
       Settle 1 (Body two_samples)]))
     = Some \<lparr>sampleRate = 2, channels = 1, pcm = [[- 1, - 1]]\<rparr>
   \<and> parsed (handler (run \<lparr>handler = new_LAppWavFileHandler, pending = [], issued = 0\<rparr>
      [Start ''a.wav'', Start ''b.wav'', Settle 1 (Body two_samples), Update 1,
       Settle 0 Rejected])) = None"
  using last_settlement_wins
    [of "\<lparr>handler = new_LAppWavFileHandler, pending = [], issued = 0\<rparr>"
        "''a.wav''" "''b.wav''" "[]" Rejected "[1]" "Body two_samples" "[]"]
  by (simp add: example_decoded_two_samples decoded_Rejected)

text \<open>
  \<open>start\<close> is called for \<open>a.wav\<close> and then for \<open>b.wav\<close>; the fetch of \<open>b.wav\<close> fails, and
  then the fetch of \<open>a.wav\<close> delivers a recording.  The handler ends with the recording of
  the superseded \<open>start\<close>, not with the failure of the latest one.
\<close>

theorem last_settlement_wins_counterexample:
  "parsed (handler (run \<lparr>handler = new_LAppWavFileHandler, pending = [], issued = 0\<rparr>
      [Start ''a.wav'', Start ''b.wav'', Settle 1 Rejected, Settle 0 (Body two_samples)]))
     = Some \<lparr>sampleRate = 2, channels = 1, pcm = [[- 1, - 1]]\<rparr>
   \<and> decoded Rejected = None"
  by (simp add: run_def start_def settle_def Let_def new_LAppWavFileHandler_def on_finally_def
      on_rejected_def on_fulfilled_def example_two_samples decoded_def)

section \<open>Silence\<close>

lemma aa_update_silent: "u_pcmData that = None \<Longrightarrow> aa_update that dt = (Inr (Num 0), that)"
  by (simp add: aa_update_def)

text \<open>
  Claim C7, as the code has it.  \<open>start\<close> at once sets the cursor, the clock and the last
  envelope value to 0 and \<open>parsed\<close> to null.  While \<open>parsed\<close> is null, \<open>update\<close> returns
  \<open>false\<close> and the envelope value is 0.  When no other fetch is outstanding at the call of
  \<open>start\<close>, this is so after any calls of \<open>update\<close> before the chain settles, and, when the
  fetch or the decoding fails, after any calls of \<open>update\<close> that follow; no fetch is then
  outstanding that could store audio.  The analyser's \<open>load\<close> resets nothing; its \<open>update\<close>
  returns 0 as long as \<open>_pcmData\<close> is null, and a failed fetch leaves the analyser as it is.
\<close>

theorem silent_while_loading:
  "parsed (handler (start w p)) = None \<and> sampleCursor (handler (start w p)) = 0
   \<and> timeSeconds (handler (start w p)) = 0 \<and> lastRms (handler (start w p)) = Num 0
   \<and> (parsed this = None \<longrightarrow> update this dt = (Inr False, this\<lparr>lastRms := Num 0\<rparr>))
   \<and> (pending w = [] \<longrightarrow>
        pending (run (start w p) (map Update dts)) = [(issued w, p)]
        \<and> parsed (handler (run (start w p) (map Update dts))) = None
        \<and> getRms (handler (run (start w p) (map Update dts))) = Num 0)
   \<and> (pending w = [] \<and> decoded res = None \<longrightarrow>
        pending (run (settle (run (start w p) (map Update dts)) (issued w) res)
                   (map Update dts')) = []
        \<and> parsed (handler (run (settle (run (start w p) (map Update dts)) (issued w) res)
                   (map Update dts'))) = None
        \<and> getRms (handler (run (settle (run (start w p) (map Update dts)) (issued w) res)
                   (map Update dts'))) = Num 0)
   \<and> (u_pcmData that = None \<longrightarrow> aa_update that dt = (Inr (Num 0), that))
   \<and> aa_load that Rejected = Some (False, that)"
proof -
  define w1 where "w1 = run (start w p) (map Update dts)"
  have s: "parsed (handler (start w p)) = None" "lastRms (handler (start w p)) = Num 0"
    by (simp_all add: start_fields)
  have p1: "parsed (handler w1) = None"
    by (simp add: w1_def run_updates start_fields)
  have g1: "getRms (handler w1) = Num 0"
    unfolding w1_def using s by (rule run_updates_silent)
  have q1: "pending w = [] \<longrightarrow> pending w1 = [(issued w, p)]"
    by (simp add: w1_def run_updates start_fields)
  have after: "pending w = [] \<and> decoded res = None \<longrightarrow>
        pending (run (settle w1 (issued w) res) (map Update dts')) = []
        \<and> parsed (handler (run (settle w1 (issued w) res) (map Update dts'))) = None
        \<and> getRms (handler (run (settle w1 (issued w) res) (map Update dts'))) = Num 0"
  proof
    assume h: "pending w = [] \<and> decoded res = None"
    define w2 where "w2 = settle w1 (issued w) res"
    have pw1: "pending w1 = [(issued w, p)]"
      using h q1 by simp
    have p2: "parsed (handler w2) = None"
      using settle_parsed [of "issued w" w1 res] pw1 h by (simp add: w2_def)
    have l2: "lastRms (handler w2) = Num 0"
      using g1 by (simp add: w2_def settle_untouched getRms_def)
    have q2: "pending w2 = []"
      by (simp add: w2_def settle_pending pw1)
    show "pending (run (settle w1 (issued w) res) (map Update dts')) = []
        \<and> parsed (handler (run (settle w1 (issued w) res) (map Update dts'))) = None
        \<and> getRms (handler (run (settle w1 (issued w) res) (map Update dts'))) = Num 0"
      unfolding w2_def [symmetric]
      using p2 q2 run_updates_silent [OF p2 l2] by (simp add: run_updates)
  qed
  show ?thesis
    unfolding w1_def [symmetric]
    using p1 g1 q1 after
    by (simp add: start_fields update_silent aa_update_silent aa_load_def)
qed

lemma example_decoded_short: "decoded (Body [1, 2, 3]) = None"
  by (simp add: decoded_def parseWav_def byteLength_def)

theorem silent_while_loading_witness:
  "pending \<lparr>handler = new_LAppWavFileHandler, pending = [], issued = 0\<rparr> = []
   \<and> decoded (Body [1, 2, 3]) = None
   \<and> parsed new_LAppWavFileHandler = None
   \<and> u_pcmData new_AudioAnalyser = None
   \<and> update new_LAppWavFileHandler 1 = (Inr False, new_LAppWavFileHandler\<lparr>lastRms := Num 0\<rparr>)
   \<and> getRms (handler (run (start \<lparr>handler = new_LAppWavFileHandler, pending = [], issued = 0\<rparr>
        ''a.wav'') (map Update [1, 2]))) = Num 0
   \<and> getRms (handler (run (settle (run
        (start \<lparr>handler = new_LAppWavFileHandler, pending = [], issued = 0\<rparr> ''a.wav'')
        (map Update [1, 2])) 0 (Body [1, 2, 3])) (map Update [3]))) = Num 0
   \<and> aa_update new_AudioAnalyser 1 = (Inr (Num 0), new_AudioAnalyser)"
  using silent_while_loading
    [of "\<lparr>handler = new_LAppWavFileHandler, pending = [], issued = 0\<rparr>" "''a.wav''"
        new_LAppWavFileHandler 1 "[1, 2]" "Body [1, 2, 3]" "[3]" new_AudioAnalyser]
    example_decoded_short
  by (simp add: new_LAppWavFileHandler_def new_AudioAnalyser_def)

text \<open>
  \<open>start\<close> is called for \<open>a.wav\<close> and then for \<open>b.wav\<close>.  The recording of \<open>a.wav\<close> arrives
  while the fetch of \<open>b.wav\<close> is still outstanding, and the next \<open>update\<close> reports the
  envelope value 1.  In the second run the fetch of \<open>b.wav\<close> has failed before, and the
  recording of \<open>a.wav\<close> still makes \<open>update\<close> report 1.
\<close>

theorem silent_while_loading_counterexample:
  "getRms (handler (run \<lparr>handler = new_LAppWavFileHandler, pending = [], issued = 0\<rparr>
      [Start ''a.wav'', Start ''b.wav'', Settle 0 (Body two_samples), Update (1 / 2)])) = Num 1
   \<and> pending (run \<lparr>handler = new_LAppWavFileHandler, pending = [], issued = 0\<rparr>
      [Start ''a.wav'', Start ''b.wav'', Settle 0 (Body two_samples), Update (1 / 2)])
       = [(1, ''b.wav'')]
   \<and> getRms (handler (run \<lparr>handler = new_LAppWavFileHandler, pending = [], issued = 0\<rparr>
      [Start ''a.wav'', Start ''b.wav'', Settle 1 Rejected, Settle 0 (Body two_samples),
       Update (1 / 2)])) = Num 1"
  by (simp add: run_def start_def settle_def Let_def new_LAppWavFileHandler_def on_finally_def
      on_rejected_def on_fulfilled_def example_two_samples getRms_def update_def
      frameCount_def pool_loop.simps sample_loop.simps f32_get_def)

section \<open>Bytes and the sign extension of 24 bits\<close>

lemma uint_byte_bounds: "0 \<le> uint (w :: 8 word) \<and> uint w < 256"
  using uint_lt2p [of w] by simp

lemma take_bit_byte: "take_bit 8 (uint (w :: 8 word)) = uint w"
  using uint_byte_bounds [of w] by (simp add: take_bit_int_eq_self)

lemma bytes_or_sum:
  fixes w0 w1 w2 :: "8 word"
  shows "(word_of_int (uint w0) OR push_bit 8 (word_of_int (uint w1))
          OR push_bit 16 (word_of_int (uint w2)) :: 32 word)
         = word_of_int (uint w0 + 256 * uint w1 + 65536 * uint w2)"
proof -
  have u: "uint w0 + 256 * uint w1 + 65536 * uint w2
      = concat_bit 8 (uint w0) (concat_bit 8 (uint w1) (uint w2))"
    by (simp add: concat_bit_eq take_bit_byte push_bit_eq_mult algebra_simps)
  show ?thesis
    unfolding u
    by (rule bit_word_eqI) (auto simp: bit_simps dest: bit_imp_le_length)
qed

lemma low24_and_high8:
  fixes u :: int
  assumes "0 \<le> u" and "u < 16777216"
  shows "u AND 4278190080 = 0"
proof -
  have "u = take_bit 24 u"
    using assms by (simp add: take_bit_int_eq_self)
  moreover have "(4278190080 :: int) = push_bit 24 255"
    by (simp add: push_bit_eq_mult)
  moreover have "take_bit 24 u AND push_bit 24 b = 0" for b :: int
    by (rule bit_eqI) (auto simp: bit_simps)
  ultimately show ?thesis
    by metis
qed

lemma bit23_iff:
  fixes u :: int
  assumes "0 \<le> u" and "u < 16777216"
  shows "bit u 23 \<longleftrightarrow> 8388608 \<le> u"
proof -
  have "u div 8388608 = (if 8388608 \<le> u then 1 else 0)"
    using assms by (auto simp: div_pos_pos_trivial intro: int_div_pos_eq [of _ _ "u - 8388608"])
  then show ?thesis
    by (simp add: bit_iff_odd)
qed

lemma sint24:
  fixes w0 w1 w2 :: "8 word"
  defines "u \<equiv> uint w0 + 256 * uint w1 + 65536 * uint w2"
  defines "v \<equiv> (word_of_int (uint w0) OR push_bit 8 (word_of_int (uint w1))
          OR push_bit 16 (word_of_int (uint w2)) :: 32 word)"
  shows "sint (if v AND 0x800000 \<noteq> 0 then v OR 0xff000000 else v)
         = (if 8388608 \<le> u then u - 16777216 else u)"
proof -
  have v: "v = word_of_int u"
    unfolding u_def v_def by (rule bytes_or_sum)
  have ub: "0 \<le> u" "u < 16777216"
    using uint_byte_bounds [of w0] uint_byte_bounds [of w1] uint_byte_bounds [of w2]
    by (simp_all add: u_def)
  have uv: "uint v = u"
    using ub by (simp add: v uint_word_of_int)
  have bit23: "v AND 0x800000 \<noteq> 0 \<longleftrightarrow> 8388608 \<le> u"
  proof -
    have "(0x800000 :: 32 word) = 2 ^ 23"
      by simp
    then have "v AND 0x800000 \<noteq> 0 \<longleftrightarrow> bit v 23"
      by (simp only: and_exp_eq_0_iff_not_bit) simp
    also have "\<dots> \<longleftrightarrow> bit u 23"
      by (simp add: v bit_word_of_int_iff)
    also have "\<dots> \<longleftrightarrow> 8388608 \<le> u"
      using ub by (rule bit23_iff)
    finally show ?thesis .
  qed
  show ?thesis
  proof (cases "8388608 \<le> u")
    case True
    have "uint (v AND 0xff000000) = 0"
      using low24_and_high8 [OF ub] by (simp add: uint_and uv)
    then have "v AND 0xff000000 = 0"
      by (simp only: uint_0_iff)
    then have "v OR 0xff000000 = v + 0xff000000"
      by (simp add: disjunctive_add_eq_or)
    also have "\<dots> = word_of_int (u - 16777216)"
      by (simp add: v)
    finally have eq: "v OR 0xff000000 = word_of_int (u - 16777216)" .
    have "sint (v OR 0xff000000) = signed_take_bit (LENGTH(32) - 1) (u - 16777216)"
      unfolding eq by (rule sint_sbintrunc')
    also have "\<dots> = u - 16777216"
      using ub by (intro signed_take_bit_int_eq_self) simp_all
    finally show ?thesis
      using True bit23 by simp
  next
    case False
    have "sint v = signed_take_bit (LENGTH(32) - 1) u"
      unfolding v by (rule sint_sbintrunc')
    also have "\<dots> = u"
      using ub by (intro signed_take_bit_int_eq_self) simp_all
    finally show ?thesis
      using False bit23 by simp
  qed
qed

section \<open>Float32 stores\<close>






section \<open>Reading samples\<close>

lemma byte_at_bounds: "0 \<le> byte_at view off \<and> byte_at view off < 256"
  using uint_byte_bounds by (simp add: byte_at_def)

lemma nat_plus_1: "0 \<le> p \<Longrightarrow> nat (p + 1) = Suc (nat p)"
  by simp

lemma nat_plus_2: "0 \<le> p \<Longrightarrow> nat (p + 2) = Suc (Suc (nat p))"
  by simp

lemma nat_plus_3: "0 \<le> p \<Longrightarrow> nat (p + 3) = Suc (Suc (Suc (nat p)))"
  by simp


lemma le_uint_2: "le_uint buf p 2 = uint (buf ! p) + 256 * uint (buf ! Suc p)"
  by (simp add: numeral_2_eq_2)

lemma le_uint_3:
  "le_uint buf p 3 = uint (buf ! p) + 256 * uint (buf ! Suc p) + 65536 * uint (buf ! Suc (Suc p))"
  by (simp add: numeral_3_eq_3)

lemma le_uint_4:
  "le_uint buf p 4 = uint (buf ! p) + 256 * uint (buf ! Suc p) + 65536 * uint (buf ! Suc (Suc p))
     + 16777216 * uint (buf ! Suc (Suc (Suc p)))"
proof -
  have "(4::nat) = Suc (Suc (Suc (Suc 0)))" by simp
  then show ?thesis by (simp only: le_uint.simps) simp
qed

lemma read_sample_normalized:
  assumes p: "0 \<le> p" and fit: "p + bits div 8 \<le> byteLength view"
    and bits: "bits \<in> {8, 16, 24, 32}"
  shows "read_sample view bits p = Inr (normalized bits view (nat p), p + bits div 8)"
proof -
  consider "bits = 8" | "bits = 16" | "bits = 24" | "bits = 32"
    using bits by auto
  then show ?thesis
  proof cases
    case 1
    with p fit show ?thesis
      by (simp add: read_sample_def normalized_def getUint8_def in_view_def and_then_def
          byte_at_def)
  next
    case 2
    with p fit show ?thesis
      by (simp add: read_sample_def normalized_def getInt16_def in_view_def and_then_def
          byte_at_def nat_plus_1 le_sint_def le_uint_2 Let_def)
  next
    case 3
    have s: "sint (if (word_of_int (uint (view ! nat p))
                  OR push_bit 8 (word_of_int (uint (view ! Suc (nat p))))
                  OR push_bit 16 (word_of_int (uint (view ! Suc (Suc (nat p))))) :: 32 word)
                  AND 0x800000 \<noteq> 0
               then (word_of_int (uint (view ! nat p))
                  OR push_bit 8 (word_of_int (uint (view ! Suc (nat p))))
                  OR push_bit 16 (word_of_int (uint (view ! Suc (Suc (nat p))))) :: 32 word)
                  OR 0xff000000
               else (word_of_int (uint (view ! nat p))
                  OR push_bit 8 (word_of_int (uint (view ! Suc (nat p))))
                  OR push_bit 16 (word_of_int (uint (view ! Suc (Suc (nat p))))) :: 32 word))
             = le_sint view (nat p) 3"
      unfolding sint24 by (simp add: le_sint_def le_uint_3 Let_def)
    have g: "getUint8 view p = Inr (uint (view ! nat p))"
      "getUint8 view (p + 1) = Inr (uint (view ! Suc (nat p)))"
      "getUint8 view (p + 2) = Inr (uint (view ! Suc (Suc (nat p))))"
      using p fit 3 by (simp_all add: getUint8_def in_view_def byte_at_def nat_plus_1 nat_plus_2)
    have "read_sample view 24 p
        = Inr (real_of_int (le_sint view (nat p) 3) / 8388608, p + 3)"
      unfolding read_sample_def and_then_def g Let_def
      by (simp only: s [symmetric] sum.case if_False) simp
    with 3 show ?thesis
      by (simp add: normalized_def)
  next
    case 4
    with p fit show ?thesis
      by (simp add: read_sample_def normalized_def getInt32_def in_view_def and_then_def
          byte_at_def nat_plus_1 nat_plus_2 nat_plus_3 le_sint_def le_uint_4 Let_def)
  qed
qed

section \<open>The decoding loops\<close>

lemma store_sample_shaped:
  assumes "shaped out nch frames"
  shows "shaped (store_sample out ch i x) nch frames"
proof -
  have "length (store_sample out ch i x ! c) = frames" if "c < nch" for c
  proof (cases "c = ch")
    case True
    with that assms show ?thesis
      by (simp add: shaped_def store_sample_def)
  next
    case False
    with that assms show ?thesis
      by (simp add: shaped_def store_sample_def)
  qed
  with assms show ?thesis
    by (simp add: shaped_def store_sample_def)
qed

lemma store_sample_nth:
  assumes "shaped out nch frames" and "ch < nch" and "i < frames" and "c < nch"
    and "j < frames"
  shows "store_sample out ch i x ! c ! j
     = (if c = ch \<and> j = i then fround (max (- 1) (min 1 x)) else out ! c ! j)"
proof (cases "c = ch")
  case True
  with assms show ?thesis
    by (simp add: shaped_def store_sample_def nth_list_update)
next
  case False
  with assms show ?thesis
    by (simp add: shaped_def store_sample_def)
qed

lemma filledD:
  "filled view bits dataOffset nch frames out i ch \<Longrightarrow> c < nch \<Longrightarrow> j < frames \<Longrightarrow>
   j < i \<or> j = i \<and> c < ch \<Longrightarrow> out ! c ! j = stored view bits dataOffset nch j c"
  unfolding filled_def by blast

lemma channel_loop_filled:
  assumes bits: "bits \<in> {8, 16, 24, 32}" and B: "B = nat (bits div 8)"
    and d0: "0 \<le> dataOffset"
    and i: "i < frames"
    and fit: "dataOffset + int ((i * nch + nch) * B) \<le> byteLength view"
  shows "ch \<le> nch \<Longrightarrow> shaped out nch frames \<Longrightarrow>
     filled view bits dataOffset nch frames out i ch \<Longrightarrow>
     p = dataOffset + int ((i * nch + ch) * B) \<Longrightarrow>
     \<exists>out'. channel_loop view bits nch i ch p out
               = Inr (dataOffset + int ((i * nch + nch) * B), out')
          \<and> shaped out' nch frames \<and> filled view bits dataOffset nch frames out' (Suc i) 0"
proof (induction "nch - ch" arbitrary: ch p out)
  case 0
  then have ch: "ch = nch" by simp
  have "filled view bits dataOffset nch frames out (Suc i) 0"
    unfolding filled_def
  proof (intro allI impI)
    fix c j
    assume c: "c < nch" and j: "j < frames" and "j < Suc i \<or> j = Suc i \<and> c < 0"
    then have "j < i \<or> j = i \<and> c < ch"
      by (auto simp: ch)
    with "0.prems"(3) c j show "out ! c ! j = stored view bits dataOffset nch j c"
      by (rule filledD)
  qed
  moreover have "channel_loop view bits nch i ch p out = Inr (p, out)"
    by (subst channel_loop.simps) (simp add: ch)
  ultimately show ?case
    using "0.prems" by (simp add: ch)
next
  case (Suc d)
  then have lt: "ch < nch" and d: "d = nch - (ch + 1)" by simp_all
  have Bint: "int B = bits div 8"
    using bits by (auto simp: B)
  have p0: "0 \<le> p"
    using d0 Suc.prems(4) by simp
  have "(i * nch + ch + 1) * B \<le> (i * nch + nch) * B"
    using lt by (intro mult_le_mono1) simp
  then have "p + int B \<le> dataOffset + int ((i * nch + nch) * B)"
    unfolding Suc.prems(4) by (simp add: algebra_simps flip: of_nat_add of_nat_mult)
  with fit have pfit: "p + bits div 8 \<le> byteLength view"
    by (simp add: Bint)
  have "nat p = nat dataOffset + (i * nch + ch) * B"
    unfolding Suc.prems(4) by (simp only: nat_add_distrib [OF d0 of_nat_0_le_iff] nat_int)
  then have pos: "nat p = sample_position dataOffset (int nch) bits i ch"
    by (simp add: sample_position_def B)
  have rd: "read_sample view bits p
      = Inr (normalized bits view (sample_position dataOffset (int nch) bits i ch), p + int B)"
    using read_sample_normalized [OF p0 pfit bits] by (simp add: pos Bint)
  define out1 where "out1 = store_sample out ch i
      (normalized bits view (sample_position dataOffset (int nch) bits i ch))"
  have sh1: "shaped out1 nch frames"
    unfolding out1_def using Suc.prems(2) by (rule store_sample_shaped)
  have f1: "filled view bits dataOffset nch frames out1 i (ch + 1)"
    unfolding filled_def
  proof (intro allI impI)
    fix c j
    assume c: "c < nch" and j: "j < frames" and b: "j < i \<or> j = i \<and> c < ch + 1"
    show "out1 ! c ! j = stored view bits dataOffset nch j c"
    proof (cases "c = ch \<and> j = i")
      case True
      then show ?thesis
        using store_sample_nth [OF Suc.prems(2) lt i c j] by (simp add: out1_def stored_def)
    next
      case False
      with b have "j < i \<or> j = i \<and> c < ch" by auto
      with Suc.prems(3) c j have "out ! c ! j = stored view bits dataOffset nch j c"
        by (rule filledD)
      with False show ?thesis
        using store_sample_nth [OF Suc.prems(2) lt i c j] by (auto simp: out1_def)
    qed
  qed
  have p1: "p + int B = dataOffset + int ((i * nch + (ch + 1)) * B)"
    by (simp add: Suc.prems(4) algebra_simps)
  have step: "channel_loop view bits nch i ch p out
      = channel_loop view bits nch i (ch + 1) (p + int B) out1"
    using lt by (subst channel_loop.simps) (simp add: rd out1_def)
  from lt have "ch + 1 \<le> nch" by simp
  from Suc.hyps(1) [OF d this sh1 f1 p1] show ?case
    by (simp add: step)
qed

lemma frame_loop_filled:
  assumes bits: "bits \<in> {8, 16, 24, 32}" and B: "B = nat (bits div 8)"
    and d0: "0 \<le> dataOffset"
    and fit: "dataOffset + int (frames * nch * B) \<le> byteLength view"
  shows "i \<le> frames \<Longrightarrow> shaped out nch frames \<Longrightarrow>
     filled view bits dataOffset nch frames out i 0 \<Longrightarrow>
     p = dataOffset + int (i * nch * B) \<Longrightarrow>
     \<exists>out'. frame_loop view bits nch frames i p out = Inr out'
          \<and> shaped out' nch frames \<and> filled view bits dataOffset nch frames out' frames 0"
proof (induction "frames - i" arbitrary: i p out)
  case 0
  then have "frame_loop view bits nch frames i p out = Inr out"
    by (subst frame_loop.simps) simp
  with "0.prems" "0.hyps" show ?case
    by simp
next
  case (Suc d)
  then have lt: "i < frames" and d: "d = frames - (i + 1)" by simp_all
  have "(i * nch + nch) * B \<le> frames * nch * B"
  proof -
    have "Suc i * nch \<le> frames * nch"
      using lt by (intro mult_le_mono1) simp
    then show ?thesis
      by (intro mult_le_mono1) simp
  qed
  with fit have fit1: "dataOffset + int ((i * nch + nch) * B) \<le> byteLength view"
    by linarith
  have p: "p = dataOffset + int ((i * nch + 0) * B)"
    by (simp add: Suc.prems(4))
  obtain out1 where
    cl: "channel_loop view bits nch i 0 p out
          = Inr (dataOffset + int ((i * nch + nch) * B), out1)"
    and sh1: "shaped out1 nch frames"
    and f1: "filled view bits dataOffset nch frames out1 (Suc i) 0"
    using channel_loop_filled [OF bits B d0 lt fit1 _ Suc.prems(2,3) p] by auto
  have p1: "dataOffset + int ((i * nch + nch) * B) = dataOffset + int ((i + 1) * nch * B)"
    by (simp add: algebra_simps)
  have step: "frame_loop view bits nch frames i p out
      = frame_loop view bits nch frames (i + 1) (dataOffset + int ((i * nch + nch) * B)) out1"
    using lt by (subst frame_loop.simps) (simp add: cl)
  from lt have le: "i + 1 \<le> frames" by simp
  from f1 have f1': "filled view bits dataOffset nch frames out1 (i + 1) 0" by simp
  from Suc.hyps(1) [OF d le sh1 f1' p1] show ?case
    by (simp add: step)
qed

section \<open>The chunk walk\<close>

lemma getUint32_nonneg: "getUint32 view off = Inr sz \<Longrightarrow> 0 \<le> sz"
  by (auto simp: getUint32_def byte_at_def split: if_splits)

lemma getUint16_nonneg: "getUint16 view off = Inr v \<Longrightarrow> 0 \<le> v"
  by (auto simp: getUint16_def byte_at_def split: if_splits)

lemma readFourCC_in_view:
  "in_view view off 4 \<Longrightarrow> \<exists>s. readFourCC view off = Inr s"
  by (simp add: readFourCC_def and_then_def getUint8_def in_view_def)

lemma getUint32_in_view:
  "in_view view off 4 \<Longrightarrow> \<exists>v. getUint32 view off = Inr v"
  by (simp add: getUint32_def)

lemma chunk_walk_returns:
  "0 \<le> offset \<Longrightarrow> \<exists>r. chunk_walk view offset st = Inr r"
proof (induction view offset st rule: chunk_walk.induct)
  case (1 view offset fmtOffset fmtSize dataOffset dataSize)
  show ?case
  proof (cases "offset + 8 \<le> byteLength view")
    case False
    then show ?thesis
      by (subst chunk_walk.simps) simp
  next
    case True
    obtain ident where id: "readFourCC view offset = Inr ident"
      using readFourCC_in_view [of view offset] True "1.prems" by (auto simp: in_view_def)
    obtain sz where sz: "getUint32 view (offset + 4) = Inr sz"
      using getUint32_in_view [of view "offset + 4"] True "1.prems" by (auto simp: in_view_def)
    have nn: "0 \<le> sz"
      using sz by (rule getUint32_nonneg)
    then have "0 \<le> offset + 8 + sz + sz mod 2"
      using "1.prems" by simp
    from "1.IH" [OF True id sz refl this] show ?thesis
      by (subst chunk_walk.simps) (simp add: True id sz Let_def)
  qed
qed

lemma chunk_walk_bounds:
  "chunk_walk view offset (fo, fs, dof, ds) = Inr (fo', fs', dof', ds') \<Longrightarrow> 0 \<le> offset \<Longrightarrow>
   (fo' = fo \<and> fs' = fs \<or> offset + 8 \<le> fo' \<and> fo' \<le> byteLength view \<and> 0 \<le> fs')
   \<and> (dof' = dof \<and> ds' = ds \<or> offset + 8 \<le> dof' \<and> dof' \<le> byteLength view \<and> 0 \<le> ds')"
proof (induction view offset "(fo, fs, dof, ds)" arbitrary: fo fs dof ds rule: chunk_walk.induct)
  case (1 view offset fo fs dof ds)
  show ?case
  proof (cases "offset + 8 \<le> byteLength view")
    case False
    with "1.prems" show ?thesis
      by (subst (asm) chunk_walk.simps) simp
  next
    case True
    obtain ident where id: "readFourCC view offset = Inr ident"
      using readFourCC_in_view [of view offset] True "1.prems" by (auto simp: in_view_def)
    obtain sz where sz: "getUint32 view (offset + 4) = Inr sz"
      using getUint32_in_view [of view "offset + 4"] True "1.prems" by (auto simp: in_view_def)
    have nn: "0 \<le> sz"
      using sz by (rule getUint32_nonneg)
    then have off: "0 \<le> offset + 8 + sz + sz mod 2"
      using "1.prems" by simp
    define st where "st = (if ident = ''fmt '' then (offset + 8, sz, dof, ds)
        else if ident = ''data'' then (fo, fs, offset + 8, sz) else (fo, fs, dof, ds))"
    obtain fo1 fs1 dof1 ds1 where st1: "st = (fo1, fs1, dof1, ds1)"
      by (cases st) auto
    have rec: "chunk_walk view (offset + 8 + sz + sz mod 2) (fo1, fs1, dof1, ds1)
        = Inr (fo', fs', dof', ds')"
      using "1.prems"(1)
      by (subst (asm) chunk_walk.simps) (simp add: True id sz Let_def st_def [symmetric] st1)
    have ih: "(fo' = fo1 \<and> fs' = fs1
          \<or> offset + 8 + sz + sz mod 2 + 8 \<le> fo' \<and> fo' \<le> byteLength view \<and> 0 \<le> fs')
        \<and> (dof' = dof1 \<and> ds' = ds1
          \<or> offset + 8 + sz + sz mod 2 + 8 \<le> dof' \<and> dof' \<le> byteLength view \<and> 0 \<le> ds')"
      using "1.hyps" [OF True id sz refl _ rec off] st1 by (simp add: st_def)
    have cur: "(fo1 = fo \<and> fs1 = fs \<or> fo1 = offset + 8 \<and> fs1 = sz)
        \<and> (dof1 = dof \<and> ds1 = ds \<or> dof1 = offset + 8 \<and> ds1 = sz)"
      using st1 by (auto simp: st_def split: if_splits)
    from ih cur nn True show ?thesis
      by auto
  qed
qed

section \<open>The decoded samples\<close>











lemma parse_chunks_layout:
  assumes fo: "0 \<le> fo" "fo + 16 \<le> byteLength buf"
    and dof: "0 \<le> dof" "dof \<le> byteLength buf" and ds: "0 \<le> ds"
    and fmt: "getUint16 buf fo = Inr 1" "getUint16 buf (fo + 2) = Inr nch"
      "getUint32 buf (fo + 4) = Inr rate" "getUint16 buf (fo + 14) = Inr bits"
    and ok: "nch \<noteq> 0" "rate \<noteq> 0" "bits \<in> {8, 16, 24, 32}"
  shows "\<exists>out. parse_chunks buf (fo, fs, dof, ds)
                 = Inr (Some \<lparr>sampleRate = rate, channels = nch, pcm = out\<rparr>)
           \<and> shaped out (nat nch) (frames_available buf dof ds nch bits)
           \<and> filled buf bits dof (nat nch) (frames_available buf dof ds nch bits) out
                (frames_available buf dof ds nch bits) 0"
proof -
  define B where "B = nat (bits div 8)"
  define frames where "frames = frames_available buf dof ds nch bits"
  define avail where "avail = min ds (byteLength buf - dof)"
  have nch: "0 < nch"
    using getUint16_nonneg [OF fmt(2)] ok(1) by simp
  have Bpos: "0 < bits div 8" and Bint: "int B = bits div 8"
    using ok(3) by (auto simp: B_def)
  have fb: "0 < nch * (bits div 8)"
    using nch Bpos by simp
  have av: "0 \<le> avail"
    using dof ds by (simp add: avail_def)
  have fr: "nat \<lfloor>real_of_int avail / real_of_int (nch * (bits div 8))\<rfloor> = frames"
    by (simp only: floor_divide_of_int_eq frames_def frames_available_def avail_def)
  have "int frames = avail div (nch * (bits div 8))"
    using av fb by (simp add: frames_def frames_available_def avail_def pos_imp_zdiv_nonneg_iff)
  then have "int (frames * nat nch * B) = avail div (nch * (bits div 8)) * (nch * (bits div 8))"
    using nch by (simp add: Bint)
  also have "\<dots> \<le> avail"
    using fb by (simp add: minus_mod_eq_div_mult [symmetric])
  also have "\<dots> \<le> byteLength buf - dof"
    by (simp add: avail_def)
  finally have fit: "dof + int (frames * nat nch * B) \<le> byteLength buf"
    by simp
  have sh0: "shaped (replicate (nat nch) (replicate frames 0)) (nat nch) frames"
    by (simp add: shaped_def)
  have f0: "filled buf bits dof (nat nch) frames (replicate (nat nch) (replicate frames 0)) 0 0"
    by (simp add: filled_def)
  obtain out where
    fl: "frame_loop buf bits (nat nch) frames 0 dof (replicate (nat nch) (replicate frames 0))
          = Inr out"
    and sh: "shaped out (nat nch) frames"
    and fi: "filled buf bits dof (nat nch) frames out frames 0"
    using frame_loop_filled [OF ok(3) B_def dof(1) fit _ sh0 f0, where p = dof]
    by auto
  have guard: "\<not> byteLength buf < fo + min fs 16"
    using fo by simp
  have "parse_chunks buf (fo, fs, dof, ds)
      = Inr (Some \<lparr>sampleRate = rate, channels = nch, pcm = out\<rparr>)"
    unfolding parse_chunks_def
    using fo dof guard ok fmt fl
    by (simp add: and_then_def Let_def fr [unfolded avail_def] del: of_int_mult)
  with sh fi show ?thesis
    unfolding frames_def by blast
qed

section \<open>What \<open>parseWav\<close> accepts\<close>

lemma parseWav_layout:
  assumes "wav_layout buf fo dof ds nch rate bits"
  shows "\<exists>out. parseWav buf = Inr (Some \<lparr>sampleRate = rate, channels = nch, pcm = out\<rparr>)
           \<and> shaped out (nat nch) (frames_available buf dof ds nch bits)
           \<and> filled buf bits dof (nat nch) (frames_available buf dof ds nch bits) out
                (frames_available buf dof ds nch bits) 0"
proof -
  from assms obtain fs where
    len: "12 \<le> byteLength buf" and riff: "readFourCC buf 0 = Inr ''RIFF''"
    and wave: "readFourCC buf 8 = Inr ''WAVE''"
    and walk: "chunk_walk buf 12 (- 1, 0, - 1, 0) = Inr (fo, fs, dof, ds)"
    and fo: "0 \<le> fo" "fo + 16 \<le> byteLength buf" and dof: "0 \<le> dof"
    and fmt: "getUint16 buf fo = Inr 1" "getUint16 buf (fo + 2) = Inr nch"
      "getUint32 buf (fo + 4) = Inr rate" "getUint16 buf (fo + 14) = Inr bits"
    and ok: "nch \<noteq> 0" "rate \<noteq> 0" "bits \<in> {8, 16, 24, 32}"
    unfolding wav_layout_def by blast
  have "dof \<le> byteLength buf \<and> 0 \<le> ds"
    using chunk_walk_bounds [OF walk] dof by auto
  then have d: "dof \<le> byteLength buf" "0 \<le> ds"
    by simp_all
  have "parseWav buf = parse_chunks buf (fo, fs, dof, ds)"
    using len riff wave walk by (simp add: parseWav_def and_then_def)
  with parse_chunks_layout [OF fo dof d fmt ok, of fs] show ?thesis
    by simp
qed

lemma getUint16_in_view: "getUint16 view off = Inr v \<Longrightarrow> in_view view off 2"
  by (simp add: getUint16_def split: if_splits)

lemma parse_chunks_accepts:
  assumes "parse_chunks buf (fo, fs, dof, ds) = Inr (Some wav)"
  shows "0 \<le> fo \<and> 0 \<le> dof \<and> fo + 16 \<le> byteLength buf
     \<and> getUint16 buf fo = Inr 1
     \<and> getUint16 buf (fo + 2) = Inr (channels wav) \<and> channels wav \<noteq> 0
     \<and> getUint32 buf (fo + 4) = Inr (sampleRate wav) \<and> sampleRate wav \<noteq> 0
     \<and> (\<exists>bits. getUint16 buf (fo + 14) = Inr bits \<and> bits \<in> {8, 16, 24, 32})"
proof -
  from assms have pos: "0 \<le> fo" "0 \<le> dof"
    by (auto simp: parse_chunks_def split: if_splits)
  from assms obtain a where a: "getUint16 buf fo = Inr a"
    by (cases "getUint16 buf fo")
      (auto simp: parse_chunks_def and_then_def split: if_splits)
  from assms obtain n where n: "getUint16 buf (fo + 2) = Inr n"
    by (cases "getUint16 buf (fo + 2)")
      (auto simp: parse_chunks_def and_then_def a split: if_splits)
  from assms obtain r where r: "getUint32 buf (fo + 4) = Inr r"
    by (cases "getUint32 buf (fo + 4)")
      (auto simp: parse_chunks_def and_then_def a n split: if_splits)
  from assms obtain b where b: "getUint16 buf (fo + 14) = Inr b"
    by (cases "getUint16 buf (fo + 14)")
      (auto simp: parse_chunks_def and_then_def a n r split: if_splits)
  from assms have chk: "a = 1" "n \<noteq> 0" "r \<noteq> 0" "b \<in> {8, 16, 24, 32}"
    by (auto simp: parse_chunks_def and_then_def a n r b split: if_splits)
  from assms have res: "channels wav = n" "sampleRate wav = r"
    by (auto simp: parse_chunks_def and_then_def a n r b Let_def
        split: if_splits sum.splits)
  have "fo + 16 \<le> byteLength buf"
    using getUint16_in_view [OF b] by (simp add: in_view_def)
  with pos a n r b chk res show ?thesis
    by simp
qed

lemma parseWav_short: "byteLength buf < 12 \<Longrightarrow> parseWav buf = Inr None"
  by (simp add: parseWav_def)

lemma parseWav_tags:
  assumes "readFourCC buf 0 \<noteq> Inr ''RIFF'' \<or> readFourCC buf 8 \<noteq> Inr ''WAVE''"
  shows "parseWav buf = Inr None"
proof (cases "byteLength buf < 12")
  case True
  then show ?thesis by (rule parseWav_short)
next
  case False
  then obtain s0 s8 where s: "readFourCC buf 0 = Inr s0" "readFourCC buf 8 = Inr s8"
    using readFourCC_in_view [of buf 0] readFourCC_in_view [of buf 8]
    by (auto simp: in_view_def)
  with assms False show ?thesis
    by (auto simp: parseWav_def and_then_def)
qed

lemma parseWav_walked:
  assumes "12 \<le> byteLength buf" and "readFourCC buf 0 = Inr ''RIFF''"
    and "readFourCC buf 8 = Inr ''WAVE''"
    and "chunk_walk buf 12 (- 1, 0, - 1, 0) = Inr st"
  shows "parseWav buf = parse_chunks buf st"
  using assms by (simp add: parseWav_def and_then_def)

lemma parseWav_cases:
  "parseWav buf = Inr None
   \<or> (\<exists>st. chunk_walk buf 12 (- 1, 0, - 1, 0) = Inr st \<and> parseWav buf = parse_chunks buf st
        \<and> 12 \<le> byteLength buf \<and> readFourCC buf 0 = Inr ''RIFF''
        \<and> readFourCC buf 8 = Inr ''WAVE'')"
proof (cases "byteLength buf < 12 \<or> readFourCC buf 0 \<noteq> Inr ''RIFF''
    \<or> readFourCC buf 8 \<noteq> Inr ''WAVE''")
  case True
  then show ?thesis
    using parseWav_short parseWav_tags by blast
next
  case False
  have "\<exists>st. chunk_walk buf 12 (- 1, 0, - 1, 0) = Inr st"
    by (rule chunk_walk_returns) simp
  then obtain st where "chunk_walk buf 12 (- 1, 0, - 1, 0) = Inr st" ..
  with False show ?thesis
    using parseWav_walked [of buf st] by auto
qed

lemma parseWav_accepts:
  assumes "parseWav buf = Inr (Some wav)"
  shows "\<exists>fo dof ds bits. wav_layout buf fo dof ds (channels wav) (sampleRate wav) bits"
proof -
  from parseWav_cases [of buf] assms obtain st where
    walk: "chunk_walk buf 12 (- 1, 0, - 1, 0) = Inr st"
    and eq: "parseWav buf = parse_chunks buf st"
    and hdr: "12 \<le> byteLength buf" "readFourCC buf 0 = Inr ''RIFF''"
      "readFourCC buf 8 = Inr ''WAVE''"
    by auto
  obtain fo fs dof ds where st: "st = (fo, fs, dof, ds)"
    by (cases st) auto
  from parse_chunks_accepts [of buf fo fs dof ds wav] assms eq st
  obtain bits where "0 \<le> fo" "0 \<le> dof" "fo + 16 \<le> byteLength buf"
    "getUint16 buf fo = Inr 1"
    "getUint16 buf (fo + 2) = Inr (channels wav)" "channels wav \<noteq> 0"
    "getUint32 buf (fo + 4) = Inr (sampleRate wav)" "sampleRate wav \<noteq> 0"
    "getUint16 buf (fo + 14) = Inr bits" "bits \<in> {8, 16, 24, 32}"
    by auto
  with hdr walk st have "wav_layout buf fo dof ds (channels wav) (sampleRate wav) bits"
    unfolding wav_layout_def by blast
  then show ?thesis
    by blast
qed

lemma parse_chunks_missing:
  "fo < 0 \<or> dof < 0 \<Longrightarrow> parse_chunks buf (fo, fs, dof, ds) = Inr None"
  by (auto simp: parse_chunks_def)

lemma parse_chunks_unsupported:
  assumes fit: "fo + 16 \<le> byteLength buf"
    and bad: "getUint16 buf fo \<noteq> Inr 1 \<or> getUint16 buf (fo + 2) = Inr 0
      \<or> getUint32 buf (fo + 4) = Inr 0
      \<or> (\<forall>bits \<in> {8, 16, 24, 32}. getUint16 buf (fo + 14) \<noteq> Inr bits)"
  shows "parse_chunks buf (fo, fs, dof, ds) = Inr None"
proof (cases "fo < 0 \<or> dof < 0")
  case True
  then show ?thesis by (rule parse_chunks_missing)
next
  case False
  with fit obtain a n r b where g: "getUint16 buf fo = Inr a" "getUint16 buf (fo + 2) = Inr n"
    "getUint32 buf (fo + 4) = Inr r" "getUint16 buf (fo + 14) = Inr b"
    by (auto simp: getUint16_def getUint32_def in_view_def)
  with bad have "a \<noteq> 1 \<or> n = 0 \<or> r = 0 \<or> b \<notin> {8, 16, 24, 32}"
    by auto
  with False g show ?thesis
    by (auto simp: parse_chunks_def and_then_def)
qed

section \<open>The round trip\<close>







section \<open>A truncated \<open>data\<close> chunk\<close>

text \<open>
  When the \<open>data\<close> chunk of a well-formed file declares more bytes than the buffer holds
  after its header, the handler's \<open>parseWav\<close> succeeds, and the frame count is the number of
  whole frames in the bytes that are there:
  \<open>floor(min(declared, remaining) / (channels * bytesPerSample))\<close>.
\<close>

theorem parseWav_truncated:
  assumes "wav_layout buf fmtOffset dataOffset dataSize nch rate bits"
    and "byteLength buf - dataOffset < dataSize"
  shows "\<exists>wav. parseWav buf = Inr (Some wav) \<and> wf_wav wav
     \<and> frameCount (pcm wav) = nat ((byteLength buf - dataOffset) div (nch * (bits div 8)))
     \<and> int (frameCount (pcm wav))
         = \<lfloor>real_of_int (min dataSize (byteLength buf - dataOffset))
            / real_of_int (nch * (bits div 8))\<rfloor>"
proof -
  define frames where "frames = frames_available buf dataOffset dataSize nch bits"
  from parseWav_layout [OF assms(1)] obtain out where
    p: "parseWav buf = Inr (Some \<lparr>sampleRate = rate, channels = nch, pcm = out\<rparr>)"
    and sh: "shaped out (nat nch) frames"
    unfolding frames_def by blast
  from assms(1) obtain fs where
    walk: "chunk_walk buf 12 (- 1, 0, - 1, 0) = Inr (fmtOffset, fs, dataOffset, dataSize)"
    and d0: "0 \<le> dataOffset"
    and nch: "getUint16 buf (fmtOffset + 2) = Inr nch" "nch \<noteq> 0"
    and bits: "bits \<in> {8, 16, 24, 32}"
    unfolding wav_layout_def by blast
  have npos: "0 < nch"
    using getUint16_nonneg [OF nch(1)] nch(2) by simp
  have rem: "0 \<le> byteLength buf - dataOffset"
    using chunk_walk_bounds [OF walk] d0 by auto
  have fb: "0 < nch * (bits div 8)"
    using npos bits by auto
  have ne: "out \<noteq> []" and len: "length out = nat nch"
    using sh npos by (auto simp: shaped_def)
  have all: "\<forall>c \<in> set out. length c = frames"
    using sh by (auto simp: shaped_def in_set_conv_nth)
  have fc: "frameCount out = frames"
    using ne all by (cases out) (simp_all add: frameCount_def)
  have wf: "wf_wav \<lparr>sampleRate = rate, channels = nch, pcm = out\<rparr>"
    using len npos all fc by (simp add: wf_wav_def rectangular_def)
  have m: "min dataSize (byteLength buf - dataOffset) = byteLength buf - dataOffset"
    using assms(2) by simp
  have f1: "frames = nat ((byteLength buf - dataOffset) div (nch * (bits div 8)))"
    by (simp add: frames_def frames_available_def m)
  have "0 \<le> (byteLength buf - dataOffset) div (nch * (bits div 8))"
    using rem fb by (simp add: pos_imp_zdiv_nonneg_iff)
  then have f2: "int frames = \<lfloor>real_of_int (min dataSize (byteLength buf - dataOffset))
            / real_of_int (nch * (bits div 8))\<rfloor>"
    by (simp only: m floor_divide_of_int_eq f1 int_nat_eq if_True)
  let ?wav = "\<lparr>sampleRate = rate, channels = nch, pcm = out\<rparr>"
  have sel: "pcm ?wav = out"
    by simp
  show ?thesis
  proof (intro exI [of _ ?wav] conjI; (unfold sel fc)?)
    show "parseWav buf = Inr (Some ?wav)" by (rule p)
    show "wf_wav ?wav" by (rule wf)
    show "frames = nat ((byteLength buf - dataOffset) div (nch * (bits div 8)))" by (rule f1)
    show "int frames = \<lfloor>real_of_int (min dataSize (byteLength buf - dataOffset))
            / real_of_int (nch * (bits div 8))\<rfloor>" by (rule f2)
  qed
qed

lemma example_cut_8_layout: "wav_layout example_cut_8 20 44 100 2 2 8"
proof -
  have "chunk_walk example_cut_8 12 (- 1, 0, - 1, 0) = Inr (20, 16, 44, 100)"
    by code_simp
  moreover have "12 \<le> byteLength example_cut_8" "readFourCC example_cut_8 0 = Inr ''RIFF''"
    "readFourCC example_cut_8 8 = Inr ''WAVE''" "getUint16 example_cut_8 20 = Inr 1"
    "getUint16 example_cut_8 (20 + 2) = Inr 2" "getUint32 example_cut_8 (20 + 4) = Inr 2"
    "getUint16 example_cut_8 (20 + 14) = Inr 8" "20 + 16 \<le> byteLength example_cut_8"
    by code_simp+
  ultimately show ?thesis
    unfolding wav_layout_def by (intro conjI exI [of _ 16]) simp_all
qed

lemma example_cut_8_parsed:
  "parseWav example_cut_8
   = Inr (Some \<lparr>sampleRate = 2, channels = 2, pcm = [[- 1, 127 / 128], [- 1 / 2, 0]]\<rparr>)"
  by code_simp

lemma example_cut_8_length: "byteLength example_cut_8 = 49"
  by code_simp

lemma example_cut_8_truncated:
  "wav_layout example_cut_8 20 44 100 2 2 8
   \<and> byteLength example_cut_8 - 44 < 100
   \<and> parseWav example_cut_8
       = Inr (Some \<lparr>sampleRate = 2, channels = 2, pcm = [[- 1, 127 / 128], [- 1 / 2, 0]]\<rparr>)
   \<and> (\<exists>wav. parseWav example_cut_8 = Inr (Some wav) \<and> wf_wav wav
         \<and> frameCount (pcm wav) = 2)"
proof -
  have c: "byteLength example_cut_8 - 44 < 100"
    by (simp add: example_cut_8_length)
  from parseWav_truncated [OF example_cut_8_layout c] obtain wav where
    "parseWav example_cut_8 = Inr (Some wav)" "wf_wav wav"
    "frameCount (pcm wav) = nat ((byteLength example_cut_8 - 44) div (2 * (8 div 8)))"
    by blast
  then have "parseWav example_cut_8 = Inr (Some wav) \<and> wf_wav wav \<and> frameCount (pcm wav) = 2"
    by (simp add: example_cut_8_length)
  then have "\<exists>wav. parseWav example_cut_8 = Inr (Some wav) \<and> wf_wav wav
      \<and> frameCount (pcm wav) = 2" ..
  with example_cut_8_layout c example_cut_8_parsed show ?thesis
    by simp
qed

text \<open>
  Claim C4 at a failing input: a file of one channel and sixteen bits whose \<open>data\<close> chunk
  declares six bytes and holds four.  The handler decodes its two frames.  The analyser sizes
  its array from the declared size, reads past the end of the buffer at the third sample, and
  its \<open>load\<close> returns \<open>false\<close>, the analyser holding the new array.
\<close>

theorem truncated_load_fails:
  "byteLength example_cut_16 - 44 < 6
   \<and> parseWav example_cut_16
       = Inr (Some \<lparr>sampleRate = 2, channels = 1, pcm = [[- 1, - 1]]\<rparr>)
   \<and> aa_load new_AudioAnalyser (Body example_cut_16)
       = Some (False, new_AudioAnalyser\<lparr>u_pcmData := Some [[- 1, - 1, 0]],
                                        u_sampleRate := 2\<rparr>)"
proof -
  have "byteLength example_cut_16 = 48"
    by code_simp
  moreover have "parseWav example_cut_16
       = Inr (Some \<lparr>sampleRate = 2, channels = 1, pcm = [[- 1, - 1]]\<rparr>)"
    by code_simp
  moreover have "aa_load new_AudioAnalyser (Body example_cut_16)
       = Some (False, new_AudioAnalyser\<lparr>u_pcmData := Some [[- 1, - 1, 0]],
                                        u_sampleRate := 2\<rparr>)"
    by code_simp
  ultimately show ?thesis
    by simp
qed

section \<open>What the decoders refuse\<close>

lemma parseWav_missing:
  assumes "chunk_walk buf 12 (- 1, 0, - 1, 0) = Inr (fo, fs, dof, ds)" and "fo < 0 \<or> dof < 0"
  shows "parseWav buf = Inr None"
  using parseWav_cases [of buf] assms parse_chunks_missing [of fo dof buf fs ds] by auto

lemma parseWav_unsupported:
  assumes "chunk_walk buf 12 (- 1, 0, - 1, 0) = Inr (fo, fs, dof, ds)"
    and "fo + 16 \<le> byteLength buf"
    and "getUint16 buf fo \<noteq> Inr 1 \<or> getUint16 buf (fo + 2) = Inr 0
      \<or> getUint32 buf (fo + 4) = Inr 0
      \<or> (\<forall>bits \<in> {8, 16, 24, 32}. getUint16 buf (fo + 14) \<noteq> Inr bits)"
  shows "parseWav buf = Inr None"
  using parseWav_cases [of buf] assms(1) parse_chunks_unsupported [OF assms(2,3), of fs dof ds]
  by auto

lemma parseWav_throws:
  assumes "parseWav buf = Inl e"
  shows "\<exists>fo fs dof ds. chunk_walk buf 12 (- 1, 0, - 1, 0) = Inr (fo, fs, dof, ds)
     \<and> 0 \<le> fo \<and> 0 \<le> dof \<and> byteLength buf < fo + 16"
proof -
  from parseWav_cases [of buf] assms obtain st where
    walk: "chunk_walk buf 12 (- 1, 0, - 1, 0) = Inr st"
    and eq: "parseWav buf = parse_chunks buf st"
    by auto
  obtain fo fs dof ds where st: "st = (fo, fs, dof, ds)"
    by (cases st) auto
  have pos: "0 \<le> fo \<and> 0 \<le> dof"
  proof (rule ccontr)
    assume "\<not> (0 \<le> fo \<and> 0 \<le> dof)"
    then have "fo < 0 \<or> dof < 0"
      by auto
    from parse_chunks_missing [OF this, of buf fs ds] assms eq st show False
      by simp
  qed
  have "byteLength buf < fo + 16"
  proof (rule ccontr)
    assume "\<not> byteLength buf < fo + 16"
    then have fit: "fo + 16 \<le> byteLength buf" by simp
    with pos obtain a n r b where g: "getUint16 buf fo = Inr a"
      "getUint16 buf (fo + 2) = Inr n" "getUint32 buf (fo + 4) = Inr r"
      "getUint16 buf (fo + 14) = Inr b"
      by (auto simp: getUint16_def getUint32_def in_view_def)
    have d: "dof \<le> byteLength buf" "0 \<le> ds"
      using chunk_walk_bounds [OF walk [unfolded st]] pos by auto
    show False
    proof (cases "a = 1 \<and> n \<noteq> 0 \<and> r \<noteq> 0 \<and> b \<in> {8, 16, 24, 32}")
      case True
      then have "\<exists>out. parse_chunks buf (fo, fs, dof, ds)
          = Inr (Some \<lparr>sampleRate = r, channels = n, pcm = out\<rparr>)"
        using parse_chunks_layout [of fo buf dof ds n r b fs] pos fit d g by auto
      with assms eq st show False by auto
    next
      case False
      then have "parse_chunks buf (fo, fs, dof, ds) = Inr None"
        using parse_chunks_unsupported [OF fit, of fs dof ds] g by auto
      with assms eq st show False by simp
    qed
  qed
  with walk st pos show ?thesis
    by auto
qed

lemma decoded_layout:
  assumes "\<not> (\<exists>fo dof ds nch rate bits. wav_layout buf fo dof ds nch rate bits)"
  shows "decoded (Body buf) = None"
proof (cases "parseWav buf")
  case (Inl e)
  then show ?thesis by (simp add: decoded_def)
next
  case (Inr r)
  show ?thesis
  proof (cases r)
    case None
    with Inr show ?thesis by (simp add: decoded_def)
  next
    case (Some wav)
    with Inr assms parseWav_accepts [of buf wav] show ?thesis by blast
  qed
qed

lemma aa_load_magic:
  assumes "byteLength buf < 12 \<or> getUint32BE buf 0 \<noteq> Inr 0x52494646
    \<or> getUint32BE buf 8 \<noteq> Inr 0x57415645"
  shows "aa_load that (Body buf) = Some (False, that)"
proof -
  have "aa_parseWav that buf = Some (Inl RangeError, that)
      \<or> aa_parseWav that buf = Some (Inr False, that)"
    using assms
    by (auto simp: aa_parseWav_def getUint32BE_def in_view_def split: if_splits)
  then show ?thesis
    by (auto simp: aa_load_def)
qed

text \<open>With no channels the loop over the frames of a non-empty \<open>data\<close> chunk never ends.\<close>

lemma aa_frame_loop_returns:
  assumes returns: "aa_frame_loop data0 nch0 spc0 i0 pcmOffset0 out0 = Some y0"
  shows "nch0 \<noteq> 0 \<or> spc0 \<noteq> Infinity"
proof (rule aa_frame_loop.raw_induct
    [where P = "\<lambda>data nch spc i pcmOffset out y. nch \<noteq> 0 \<or> spc \<noteq> Infinity", OF _ returns])
  fix f data nch spc i pcmOffset out y
  assume IH: "\<And>data nch spc i pcmOffset out y.
      f data nch spc i pcmOffset out = Some y \<Longrightarrow> nch \<noteq> 0 \<or> spc \<noteq> Infinity"
    and body: "(if below i spc then
        (case aa_channel_loop data nch i 0 pcmOffset out of
           (Inl e, out') \<Rightarrow> Some (Inl e, out')
         | (Inr pcmOffset', out') \<Rightarrow> f data nch spc (i + 1) pcmOffset' out')
      else Some (Inr (), out)) = Some y"
  show "nch \<noteq> 0 \<or> spc \<noteq> Infinity"
  proof (rule ccontr)
    assume "\<not> (nch \<noteq> 0 \<or> spc \<noteq> Infinity)"
    then have z: "nch = 0" "spc = Infinity"
      by simp_all
    have "aa_channel_loop data 0 i 0 pcmOffset out = (Inr pcmOffset, out)"
      by (subst aa_channel_loop.simps) simp
    with body z have "f data 0 Infinity (i + 1) pcmOffset out = Some y"
      by simp
    from IH [OF this] show False
      by simp
  qed
qed

lemma aa_frame_loop_diverges: "aa_frame_loop data 0 Infinity i pcmOffset out = None"
  using aa_frame_loop_returns [of data 0 Infinity i pcmOffset out]
  by (cases "aa_frame_loop data 0 Infinity i pcmOffset out") auto

lemma aa_data_chunk_diverges:
  "u_channelCount this = 0 \<Longrightarrow> chunkSize \<noteq> 0
    \<Longrightarrow> aa_data_chunk this data offset chunkSize = None"
  by (simp add: aa_data_chunk_def samplesPerChannel_of_def aa_frame_loop_diverges)

text \<open>
  The rejection set of the handler.  A buffer that is not laid out as a PCM file of a
  supported depth, with channels and a sample rate, is never given to the tracker.
  \<open>parseWav\<close> itself returns \<open>null\<close> for a short buffer, for a wrong tag, when no \<open>fmt\<close> or no
  \<open>data\<close> chunk was found, and for a wrong field of a \<open>fmt\<close> chunk of which sixteen bytes are in
  the buffer; it throws only when those sixteen bytes go past the end of the buffer, and
  \<open>start\<close> catches that.
\<close>

theorem parseWav_rejection_set:
  "(\<not> (\<exists>fo dof ds nch rate bits. wav_layout buf fo dof ds nch rate bits)
      \<longrightarrow> decoded (Body buf) = None)
   \<and> (byteLength buf < 12 \<or> readFourCC buf 0 \<noteq> Inr ''RIFF''
        \<or> readFourCC buf 8 \<noteq> Inr ''WAVE'' \<longrightarrow> parseWav buf = Inr None)
   \<and> (chunk_walk buf 12 (- 1, 0, - 1, 0) = Inr (fo, fs, dof, ds) \<and> (fo < 0 \<or> dof < 0)
        \<longrightarrow> parseWav buf = Inr None)
   \<and> (chunk_walk buf 12 (- 1, 0, - 1, 0) = Inr (fo, fs, dof, ds) \<and> fo + 16 \<le> byteLength buf
        \<and> (getUint16 buf fo \<noteq> Inr 1 \<or> getUint16 buf (fo + 2) = Inr 0
            \<or> getUint32 buf (fo + 4) = Inr 0
            \<or> (\<forall>bits \<in> {8, 16, 24, 32}. getUint16 buf (fo + 14) \<noteq> Inr bits))
        \<longrightarrow> parseWav buf = Inr None)
   \<and> (parseWav buf = Inl e
        \<longrightarrow> (\<exists>fo fs dof ds. chunk_walk buf 12 (- 1, 0, - 1, 0) = Inr (fo, fs, dof, ds)
              \<and> 0 \<le> fo \<and> 0 \<le> dof \<and> byteLength buf < fo + 16))"
proof (intro conjI impI)
  assume "\<not> (\<exists>fo dof ds nch rate bits. wav_layout buf fo dof ds nch rate bits)"
  then show "decoded (Body buf) = None"
    by (rule decoded_layout)
next
  assume "byteLength buf < 12 \<or> readFourCC buf 0 \<noteq> Inr ''RIFF''
    \<or> readFourCC buf 8 \<noteq> Inr ''WAVE''"
  then show "parseWav buf = Inr None"
    using parseWav_short [of buf] parseWav_tags [of buf] by blast
next
  assume "chunk_walk buf 12 (- 1, 0, - 1, 0) = Inr (fo, fs, dof, ds) \<and> (fo < 0 \<or> dof < 0)"
  then show "parseWav buf = Inr None"
    using parseWav_missing [of buf fo fs dof ds] by blast
next
  assume "chunk_walk buf 12 (- 1, 0, - 1, 0) = Inr (fo, fs, dof, ds) \<and> fo + 16 \<le> byteLength buf
        \<and> (getUint16 buf fo \<noteq> Inr 1 \<or> getUint16 buf (fo + 2) = Inr 0
            \<or> getUint32 buf (fo + 4) = Inr 0
            \<or> (\<forall>bits \<in> {8, 16, 24, 32}. getUint16 buf (fo + 14) \<noteq> Inr bits))"
  then show "parseWav buf = Inr None"
    using parseWav_unsupported [of buf fo fs dof ds] by blast
next
  assume "parseWav buf = Inl e"
  then show "\<exists>fo fs dof ds. chunk_walk buf 12 (- 1, 0, - 1, 0) = Inr (fo, fs, dof, ds)
      \<and> 0 \<le> fo \<and> 0 \<le> dof \<and> byteLength buf < fo + 16"
    by (rule parseWav_throws)
qed

text \<open>The files of the rejection set, in the handler.\<close>

lemma example_rejected:
  "parseWav [1, 2, 3] = Inr None"
  "parseWav example_code_2 = Inr None"
  "parseWav example_12_bits = Inr None"
  "parseWav example_no_rate = Inr None"
  "parseWav example_no_channels = Inr None"
  "parseWav example_no_fmt = Inr None"
  "parseWav example_no_data = Inr None"
  by code_simp+

lemma example_cut_fmt_throws:
  "parseWav example_cut_fmt = Inl RangeError" "decoded (Body example_cut_fmt) = None"
  by code_simp+

text \<open>The same files in the analyser.\<close>

lemma example_aa_rejected:
  "aa_load new_AudioAnalyser (Body [1, 2, 3]) = Some (False, new_AudioAnalyser)"
  "aa_load new_AudioAnalyser (Body example_code_2) = Some (False, new_AudioAnalyser)"
  "aa_load new_AudioAnalyser (Body example_12_bits)
     = Some (False, new_AudioAnalyser\<lparr>u_sampleRate := 2\<rparr>)"
  "aa_load new_AudioAnalyser (Body example_no_data)
     = Some (False, new_AudioAnalyser\<lparr>u_sampleRate := 2\<rparr>)"
  by code_simp+

lemma example_no_channels_bytes:
  "getUint32BE example_no_channels 0 = Inr 0x52494646"
  "getUint32BE example_no_channels 8 = Inr 0x57415645"
  "byteLength example_no_channels = 48"
  "getUint32BE example_no_channels 12 = Inr 0x666d7420"
  "getUint32 example_no_channels 16 = Inr 16"
  "getUint32BE example_no_channels 36 = Inr 0x64617461"
  "getUint32 example_no_channels 40 = Inr 4"
  by code_simp+

lemma example_no_channels_fmt:
  "aa_fmt_chunk new_AudioAnalyser example_no_channels 20
     = (Inr True, new_AudioAnalyser\<lparr>u_channelCount := 0, u_sampleRate := 2\<rparr>)"
  by code_simp

lemma example_no_channels_loop:
  "aa_chunk_loop example_no_channels 12 new_AudioAnalyser = None"
proof -
  let ?that = "new_AudioAnalyser\<lparr>u_channelCount := 0, u_sampleRate := 2\<rparr>"
  have "aa_chunk_loop example_no_channels 12 new_AudioAnalyser
      = aa_chunk_loop example_no_channels 36 ?that"
    by (subst aa_chunk_loop.simps)
      (simp add: example_no_channels_bytes example_no_channels_fmt)
  also have "\<dots> = aa_data_chunk ?that example_no_channels 44 4"
    by (subst aa_chunk_loop.simps) (simp add: example_no_channels_bytes)
  also have "\<dots> = None"
    by (rule aa_data_chunk_diverges) simp_all
  finally show ?thesis .
qed

lemma example_no_channels_load:
  "aa_load new_AudioAnalyser (Body example_no_channels) = None"
  by (simp add: aa_load_def aa_parseWav_def example_no_channels_bytes
      example_no_channels_loop)

text \<open>
  Claim C3 at failing inputs.  The handler refuses a file that declares no channels, one that
  declares the sample rate 0 and one with no \<open>fmt\<close> chunk.  The analyser never returns from
  the first, whose loop over the frames runs while \<open>i < Infinity\<close>, and it returns \<open>true\<close> for
  the other two, with the sample rate 0 and with the rate and the channel count it was
  built with.
\<close>

theorem analyser_accepts_rejected:
  "decoded (Body example_no_channels) = None
   \<and> decoded (Body example_no_rate) = None
   \<and> decoded (Body example_no_fmt) = None
   \<and> aa_load new_AudioAnalyser (Body example_no_channels) = None
   \<and> aa_load new_AudioAnalyser (Body example_no_rate)
       = Some (True, new_AudioAnalyser\<lparr>u_pcmData := Some [[- 1, - 1]], u_sampleRate := 0\<rparr>)
   \<and> aa_load new_AudioAnalyser (Body example_no_fmt)
       = Some (True, new_AudioAnalyser\<lparr>u_pcmData := Some [[- 1, - 1]]\<rparr>)"
proof -
  have "decoded (Body example_no_channels) = None"
    by code_simp
  moreover have "decoded (Body example_no_rate) = None"
    by code_simp
  moreover have "decoded (Body example_no_fmt) = None"
    by code_simp
  moreover have "aa_load new_AudioAnalyser (Body example_no_rate)
       = Some (True, new_AudioAnalyser\<lparr>u_pcmData := Some [[- 1, - 1]], u_sampleRate := 0\<rparr>)"
    by code_simp
  moreover have "aa_load new_AudioAnalyser (Body example_no_fmt)
       = Some (True, new_AudioAnalyser\<lparr>u_pcmData := Some [[- 1, - 1]]\<rparr>)"
    by code_simp
  ultimately show ?thesis
    using example_no_channels_load by simp
qed

section \<open>A failed replacement\<close>

lemma example_aa_load_two_samples:
  "aa_load new_AudioAnalyser (Body two_samples)
   = Some (True, \<lparr>u_pcmData = Some [[- 1, - 1]], u_sampleRate = 2, u_channelCount = 1,
                   u_lastRms = Num 0, u_sampleOffset = 0, u_userTimeSeconds = 0\<rparr>)"
  by code_simp

lemma example_aa_load_eight_bit:
  "aa_load \<lparr>u_pcmData = Some [[- 1, - 1]], u_sampleRate = 2, u_channelCount = 1,
            u_lastRms = Num 0, u_sampleOffset = 0, u_userTimeSeconds = 0\<rparr>
     (Body (riff_wave @ fmt_chunk 1 2 3 8 @ data_chunk 2 [0x80, 0x80]))
   = Some (False, \<lparr>u_pcmData = Some [[- 1, - 1]], u_sampleRate = 3, u_channelCount = 2,
                    u_lastRms = Num 0, u_sampleOffset = 0, u_userTimeSeconds = 0\<rparr>)"
  by code_simp

lemma example_aa_update_throws:
  "aa_update \<lparr>u_pcmData = Some [[- 1, - 1]], u_sampleRate = 3, u_channelCount = 2,
              u_lastRms = Num 0, u_sampleOffset = 0, u_userTimeSeconds = 0\<rparr> (1 / 2)
   = (Inl TypeError, \<lparr>u_pcmData = Some [[- 1, - 1]], u_sampleRate = 3, u_channelCount = 2,
              u_lastRms = Num 0, u_sampleOffset = 0, u_userTimeSeconds = 1 / 2\<rparr>)"
  by (simp add: aa_update_def Let_def pool_loop.simps sample_loop.simps f32_get_def)

text \<open>
  Claim C9 at a failing input.  An analyser holds the recording \<open>two_samples\<close> (one channel,
  sixteen bits).  A second \<open>load\<close> delivers a recording of two channels and eight bits:
  \<open>parseWav\<close> returns \<open>false\<close> at its test of the bits per sample, after it has stored the
  new channel count and sample rate.  The samples are the old ones, the channel count and the
  sample rate are not, and the next \<open>update\<close> throws on the missing second channel.
\<close>

theorem failed_load_overwrites_format:
  "aa_load new_AudioAnalyser (Body two_samples)
     = Some (True, \<lparr>u_pcmData = Some [[- 1, - 1]], u_sampleRate = 2, u_channelCount = 1,
                     u_lastRms = Num 0, u_sampleOffset = 0, u_userTimeSeconds = 0\<rparr>)
   \<and> aa_load \<lparr>u_pcmData = Some [[- 1, - 1]], u_sampleRate = 2, u_channelCount = 1,
              u_lastRms = Num 0, u_sampleOffset = 0, u_userTimeSeconds = 0\<rparr>
         (Body (riff_wave @ fmt_chunk 1 2 3 8 @ data_chunk 2 [0x80, 0x80]))
     = Some (False, \<lparr>u_pcmData = Some [[- 1, - 1]], u_sampleRate = 3, u_channelCount = 2,
                      u_lastRms = Num 0, u_sampleOffset = 0, u_userTimeSeconds = 0\<rparr>)
   \<and> fst (aa_update \<lparr>u_pcmData = Some [[- 1, - 1]], u_sampleRate = 3, u_channelCount = 2,
                      u_lastRms = Num 0, u_sampleOffset = 0, u_userTimeSeconds = 0\<rparr> (1 / 2))
     = Inl TypeError"
  unfolding example_aa_load_two_samples example_aa_load_eight_bit example_aa_update_throws
  by simp

end
